(* ===== verification/Prelude.thy ===== *)
theory Prelude
  imports Main "HOL-Library.Word"
begin

text \<open>
  Shared vocabulary of the AMQP event-source model.  Python's \<open>bytes\<close> are lists of
  8-bit words; Python's \<open>str\<close> is a list of Unicode code points, written here as
  natural numbers (Isabelle's \<open>char\<close> is a byte, so \<open>string\<close> would count UTF-8
  bytes rather than code points).  Literals of the source are written with \<open>ustr\<close>
  (a \<open>str\<close> literal) and \<open>bstr\<close> (a \<open>bytes\<close> literal); both map each ASCII
  character to its code.  The theory also collects the arithmetic facts on bytes that
  the decoder proofs share.
\<close>

unbundle bit_operations_syntax

named_theorems byte_simps \<open>facts reading bytes as numbers\<close>
named_theorems model_defs \<open>definitions unfolded when a witness evaluates the model\<close>

type_synonym byte = "8 word"
type_synonym bytes = "byte list"
type_synonym codepoint = nat
type_synonym pystr = "codepoint list"

definition ustr :: "string \<Rightarrow> pystr" where
  "ustr s = map of_char s"

definition bstr :: "string \<Rightarrow> bytes" where
  "bstr s = map of_char s"

declare ustr_def [model_defs] bstr_def [model_defs]

text \<open>
  The Python values the adapter handles: the values of its argument dictionary
  (\<open>args: dict[str, Any]\<close>) and the \<open>encoding\<close> argument of \<open>bytes.decode\<close>.  Only
  the kinds the plugin's host passes are modelled: strings, integers, booleans, \<open>None\<close>.
\<close>

datatype pyval = PyStr pystr | PyInt int | PyBool bool | PyNone

subsection \<open>Bytes read as numbers\<close>

lemma unat_byte_less [byte_simps]: "unat (b :: byte) < 256"
  using unsigned_less [of b] by simp

lemma unat_of_nat_byte [byte_simps]: "n < 256 \<Longrightarrow> unat (of_nat n :: byte) = n"
  by (simp add: unat_of_nat)

lemma of_nat_unat_byte [byte_simps]: "(of_nat (unat b) :: byte) = b"
  by simp

lemma byte_eq_iff_unat: "(a :: byte) = b \<longleftrightarrow> unat a = unat b"
  by (simp add: word_unat_eq_iff)

lemma push_bit_nat_mult [byte_simps]: "push_bit n (m :: nat) = m * 2 ^ n"
  by (simp add: push_bit_nat_def)

subsection \<open>Literals\<close>

lemma ustr_simps [simp]:
  "ustr [] = []" "ustr (c # cs) = of_char c # ustr cs" "ustr (xs @ ys) = ustr xs @ ustr ys"
  by (simp_all add: ustr_def)

lemma bstr_simps [simp]:
  "bstr [] = []" "bstr (c # cs) = of_char c # bstr cs" "bstr (xs @ ys) = bstr xs @ bstr ys"
  by (simp_all add: bstr_def)

lemma unat_of_char_byte [byte_simps]: "unat (of_char c :: byte) = of_char c"
proof -
  have "(of_char c :: byte) = of_nat (of_char c)"
    by (simp add: of_nat_of_char)
  then show ?thesis
    by (simp add: unat_of_nat_byte)
qed


text \<open>\<open>bytes([n])\<close> for \<open>n < 256\<close>; kept opaque so that the simplifier does not split the
  numeral sums the encoder builds.\<close>

definition byte_of :: "nat \<Rightarrow> byte" where
  "byte_of n = of_nat n"

lemma unat_byte_of [byte_simps]: "n < 256 \<Longrightarrow> unat (byte_of n) = n"
  by (simp add: byte_of_def unat_of_nat_byte)

lemma byte_of_unat [byte_simps]: "byte_of (unat b) = b"
  by (simp add: byte_of_def)

subsection \<open>Base-64 digits of a code point\<close>

text \<open>A UTF-8 sequence carries a code point in 6-bit groups; these lemmas split a number
  into such groups and recover the groups from the number.\<close>

lemma split3: "(c::nat) div 4096 * 4096 + c div 64 mod 64 * 64 + c mod 64 = c"
proof -
  have "c div 64 div 64 = c div 4096" by (simp add: div_mult2_eq[symmetric])
  moreover have "c div 64 div 64 * 64 + c div 64 mod 64 = c div 64" by simp
  moreover have "c div 64 * 64 + c mod 64 = c" by simp
  ultimately show ?thesis by linarith
qed

lemma split4:
  "(c::nat) div 262144 * 262144 + c div 4096 mod 64 * 4096 + c div 64 mod 64 * 64 + c mod 64 = c"
proof -
  have "c div 4096 div 64 = c div 262144" by (simp add: div_mult2_eq[symmetric])
  moreover have "c div 4096 div 64 * 64 + c div 4096 mod 64 = c div 4096" by simp
  ultimately show ?thesis using split3[of c] by linarith
qed

lemma digits2: "(c::nat) = d0 * 64 + d1 \<Longrightarrow> d1 < 64 \<Longrightarrow> c div 64 = d0 \<and> c mod 64 = d1"
  by simp

lemma digits3:
  assumes "(c::nat) = d0 * 4096 + d1 * 64 + d2" "d1 < 64" "d2 < 64"
  shows "c div 4096 = d0 \<and> c div 64 mod 64 = d1 \<and> c mod 64 = d2"
proof -
  have "c = (d0 * 64 + d1) * 64 + d2" using assms(1) by simp
  then have a: "c div 64 = d0 * 64 + d1" "c mod 64 = d2" using digits2 assms(3) by blast+
  then have "c div 64 div 64 = d0" "c div 64 mod 64 = d1" using digits2 assms(2) by blast+
  moreover have "c div 4096 = c div 64 div 64" by (simp add: div_mult2_eq[symmetric])
  ultimately show ?thesis using a by simp
qed

lemma digits4:
  assumes "(c::nat) = d0 * 262144 + d1 * 4096 + d2 * 64 + d3" "d1 < 64" "d2 < 64" "d3 < 64"
  shows "c div 262144 = d0 \<and> c div 4096 mod 64 = d1 \<and> c div 64 mod 64 = d2 \<and> c mod 64 = d3"
proof -
  have "c = (d0 * 64 + d1) * 4096 + d2 * 64 + d3" using assms(1) by simp
  then have a: "c div 4096 = d0 * 64 + d1" "c div 64 mod 64 = d2" "c mod 64 = d3"
    using digits3 assms(3,4) by blast+
  then have "c div 4096 div 64 = d0" "c div 4096 mod 64 = d1" using digits2 assms(2) by blast+
  moreover have "c div 262144 = c div 4096 div 64" by (simp add: div_mult2_eq[symmetric])
  ultimately show ?thesis using a by simp
qed


lemma range3:
  fixes d0 d1 d2 :: nat
  assumes "d1 < 64" "d2 < 64" "d0 < 16" "d0 = 0 \<longrightarrow> 32 \<le> d1" "d0 = 13 \<longrightarrow> d1 < 32"
  shows "0x800 \<le> d0 * 4096 + d1 * 64 + d2" "d0 * 4096 + d1 * 64 + d2 < 0x10000"
    "\<not> (0xD800 \<le> d0 * 4096 + d1 * 64 + d2 \<and> d0 * 4096 + d1 * 64 + d2 \<le> 0xDFFF)"
proof -
  show "0x800 \<le> d0 * 4096 + d1 * 64 + d2" "d0 * 4096 + d1 * 64 + d2 < 0x10000"
    using assms by linarith+
  show "\<not> (0xD800 \<le> d0 * 4096 + d1 * 64 + d2 \<and> d0 * 4096 + d1 * 64 + d2 \<le> 0xDFFF)"
  proof
    assume s: "0xD800 \<le> d0 * 4096 + d1 * 64 + d2 \<and> d0 * 4096 + d1 * 64 + d2 \<le> 0xDFFF"
    then have "d0 = 13" using assms(1,2) by linarith
    then show False using s assms by linarith
  qed
qed

lemma range4:
  fixes d0 d1 d2 d3 :: nat
  assumes "d1 < 64" "d2 < 64" "d3 < 64" "d0 < 5" "d0 = 0 \<longrightarrow> 16 \<le> d1" "d0 = 4 \<longrightarrow> d1 < 16"
  shows "0x10000 \<le> d0 * 262144 + d1 * 4096 + d2 * 64 + d3"
    "d0 * 262144 + d1 * 4096 + d2 * 64 + d3 < 0x110000"
  using assms by linarith+

end
