(* ===== verification/Codec.thy ===== *)
theory Codec
  imports Prelude
begin

text \<open>
  The Message Decoder: \<open>message.body.decode(encoding)\<close> at line 34 of
  \<open>src/extensions/eda/plugins/event_source/amq.py\<close>.  The call runs CPython's
  \<open>bytes.decode\<close>, which checks its argument, returns \<open>''\<close> at once for an empty
  byte string, normalises the encoding name, takes a fast path for the UTF-8, ASCII and
  Latin-1 codecs and otherwise asks the codec registry.  The UTF-8
  decoder follows CPython's strict decoder (\<open>Objects/stringlib/codecs.h\<close>,
  \<open>utf8_decode\<close>, and the error classification of \<open>unicode_decode_utf8\<close>): a lead
  byte, the admissible range of the second byte, continuation bytes, and the three error
  reasons with their start and end offsets.  The registry is a parameter: codecs other
  than the three fast-path ones are whatever the registry returns.
\<close>

subsection \<open>Errors\<close>

datatype reason =
    InvalidStartByte
  | InvalidContinuationByte
  | UnexpectedEndOfData
  | OrdinalNotInRange

text \<open>\<open>UnicodeDecodeError(encoding, object, start, end, reason)\<close>, \<open>LookupError\<close> for an
  unknown codec, \<open>TypeError\<close> for an encoding argument that is not a \<open>str\<close>,
  \<open>UnicodeEncodeError\<close> (with the start and end of the first run of surrogates) for an
  encoding name that has no UTF-8 form, \<open>ValueError\<close> for an encoding name with an
  embedded NUL.\<close>

datatype decode_error =
    UnicodeDecodeError pystr reason nat nat
  | LookupError pystr
  | TypeError
  | UnicodeEncodeError pystr nat nat
  | ValueError

type_synonym registry = "pystr \<Rightarrow> (bytes \<Rightarrow> decode_error + pystr) option"

datatype codec = UTF8 | ASCII | Latin1

definition codec_name :: "codec \<Rightarrow> pystr" where
  "codec_name c = (case c of UTF8 \<Rightarrow> ustr ''utf-8'' | ASCII \<Rightarrow> ustr ''ascii''
                            | Latin1 \<Rightarrow> ustr ''latin-1'')"

subsection \<open>The strict UTF-8 decoder\<close>

definition is_cont :: "byte \<Rightarrow> bool" where
  "is_cont b \<longleftrightarrow> 0x80 \<le> unat b \<and> unat b \<le> 0xBF"

text \<open>Second byte of a three-byte sequence: \<open>E0\<close> needs \<open>A0..BF\<close> (no overlong
  form), \<open>ED\<close> needs \<open>80..9F\<close> (no surrogate).\<close>

definition second_ok3 :: "nat \<Rightarrow> byte \<Rightarrow> bool" where
  "second_ok3 ch c \<longleftrightarrow>
     is_cont c \<and> \<not> (if unat c < 0xA0 then ch = 0xE0 else ch = 0xED)"

text \<open>Second byte of a four-byte sequence: \<open>F0\<close> needs \<open>90..BF\<close> (no overlong
  form), \<open>F4\<close> needs \<open>80..8F\<close> (nothing above \<open>U+10FFFF\<close>).\<close>

definition second_ok4 :: "nat \<Rightarrow> byte \<Rightarrow> bool" where
  "second_ok4 ch c \<longleftrightarrow>
     is_cont c \<and> \<not> (if unat c < 0x90 then ch = 0xF0 else ch = 0xF4)"

text \<open>One step of the decoder at a lead byte \<open>b\<close> followed by \<open>rest\<close>: either a code point
  and the number of bytes it used, or an error reason and the length of the bad span
  (for \<open>UnexpectedEndOfData\<close> the span reaches the end of the input).\<close>

definition utf8_next :: "byte \<Rightarrow> bytes \<Rightarrow> (reason \<times> nat) + (codepoint \<times> nat)" where
  "utf8_next b rest =
    (let ch = unat b in
     if ch < 0x80 then Inr (ch, 1)
     else if ch < 0xE0 then
       (if ch < 0xC2 then Inl (InvalidStartByte, 1)
        else case rest of
          [] \<Rightarrow> Inl (UnexpectedEndOfData, 1)
        | c2 # _ \<Rightarrow>
            if \<not> is_cont c2 then Inl (InvalidContinuationByte, 1)
            else Inr (push_bit 6 ch + unat c2 - (push_bit 6 0xC0 + 0x80), 2))
     else if ch < 0xF0 then
       (case rest of
          [] \<Rightarrow> Inl (UnexpectedEndOfData, 1)
        | c2 # rest2 \<Rightarrow>
            if \<not> second_ok3 ch c2 then Inl (InvalidContinuationByte, 1)
            else (case rest2 of
              [] \<Rightarrow> Inl (UnexpectedEndOfData, 2)
            | c3 # _ \<Rightarrow>
                if \<not> is_cont c3 then Inl (InvalidContinuationByte, 2)
                else Inr (push_bit 12 ch + push_bit 6 (unat c2) + unat c3
                          - (push_bit 12 0xE0 + push_bit 6 0x80 + 0x80), 3)))
     else if ch < 0xF5 then
       (case rest of
          [] \<Rightarrow> Inl (UnexpectedEndOfData, 1)
        | c2 # rest2 \<Rightarrow>
            if \<not> second_ok4 ch c2 then Inl (InvalidContinuationByte, 1)
            else (case rest2 of
              [] \<Rightarrow> Inl (UnexpectedEndOfData, 2)
            | c3 # rest3 \<Rightarrow>
                if \<not> is_cont c3 then Inl (InvalidContinuationByte, 2)
                else (case rest3 of
                  [] \<Rightarrow> Inl (UnexpectedEndOfData, 3)
                | c4 # _ \<Rightarrow>
                    if \<not> is_cont c4 then Inl (InvalidContinuationByte, 3)
                    else Inr (push_bit 18 ch + push_bit 12 (unat c2) + push_bit 6 (unat c3)
                              + unat c4
                              - (push_bit 18 0xF0 + push_bit 12 0x80 + push_bit 6 0x80 + 0x80),
                              4))))
     else Inl (InvalidStartByte, 1))"

text \<open>The decoding loop, from offset \<open>i\<close> of the original input.  The first error stops
  decoding (the strict error handler raises).\<close>

function utf8_decode_from :: "nat \<Rightarrow> bytes \<Rightarrow> decode_error + pystr" where
  "utf8_decode_from i [] = Inr []"
| "utf8_decode_from i (b # bs) =
     (case utf8_next b bs of
        Inl (r, k) \<Rightarrow> Inl (UnicodeDecodeError (ustr ''utf-8'') r i (i + k))
      | Inr (c, k) \<Rightarrow>
          (case utf8_decode_from (i + k) (drop (k - 1) bs) of
             Inl e \<Rightarrow> Inl e
           | Inr cs \<Rightarrow> Inr (c # cs)))"
  by pat_completeness auto
termination
  by (relation "measure (\<lambda>(i, bs). length bs)") auto

definition utf8_decode :: "bytes \<Rightarrow> decode_error + pystr" where
  "utf8_decode bs = utf8_decode_from 0 bs"

subsection \<open>ASCII and Latin-1\<close>

fun ascii_decode_from :: "nat \<Rightarrow> bytes \<Rightarrow> decode_error + pystr" where
  "ascii_decode_from i [] = Inr []"
| "ascii_decode_from i (b # bs) =
     (if unat b < 0x80 then
        (case ascii_decode_from (Suc i) bs of Inl e \<Rightarrow> Inl e | Inr cs \<Rightarrow> Inr (unat b # cs))
      else Inl (UnicodeDecodeError (ustr ''ascii'') OrdinalNotInRange i (Suc i)))"

definition latin1_decode :: "bytes \<Rightarrow> decode_error + pystr" where
  "latin1_decode bs = Inr (map unat bs)"

definition codec_decode :: "codec \<Rightarrow> bytes \<Rightarrow> decode_error + pystr" where
  "codec_decode c bs =
     (case c of UTF8 \<Rightarrow> utf8_decode bs | ASCII \<Rightarrow> ascii_decode_from 0 bs
              | Latin1 \<Rightarrow> latin1_decode bs)"


subsection \<open>The reference encoder\<close>

text \<open>Unicode scalar values and their UTF-8 form (Unicode Table 3-6).  The adapter never
  encodes; the encoder is the specification the decoder is proved against.\<close>

definition is_scalar :: "codepoint \<Rightarrow> bool" where
  "is_scalar c \<longleftrightarrow> c < 0x110000 \<and> \<not> (0xD800 \<le> c \<and> c \<le> 0xDFFF)"

definition utf8_encode_char :: "codepoint \<Rightarrow> bytes" where
  "utf8_encode_char c =
     (if c < 0x80 then [byte_of c]
      else if c < 0x800 then [byte_of (0xC0 + c div 64), byte_of (0x80 + c mod 64)]
      else if c < 0x10000 then
        [byte_of (0xE0 + c div 4096), byte_of (0x80 + c div 64 mod 64), byte_of (0x80 + c mod 64)]
      else [byte_of (0xF0 + c div 262144), byte_of (0x80 + c div 4096 mod 64),
            byte_of (0x80 + c div 64 mod 64), byte_of (0x80 + c mod 64)])"

definition utf8_encode :: "pystr \<Rightarrow> bytes" where
  "utf8_encode cs = concat (map utf8_encode_char cs)"

subsection \<open>\<open>bytes.decode\<close>: choosing the codec\<close>

text \<open>CPython's \<open>_Py_normalize_encoding\<close> (Python 3.9 and later): ASCII letters are
  lowered, letters, digits and dots are kept, and every run of other characters between
  kept ones becomes one underscore.  \<open>PyUnicode_Decode\<close> normalises into an 11-byte
  buffer; a name whose normal form does not fit skips the fast paths.\<close>

definition is_alnum_dot :: "codepoint \<Rightarrow> bool" where
  "is_alnum_dot c \<longleftrightarrow>
     (48 \<le> c \<and> c \<le> 57) \<or> (65 \<le> c \<and> c \<le> 90) \<or> (97 \<le> c \<and> c \<le> 122) \<or> c = 46"

definition to_lower :: "codepoint \<Rightarrow> codepoint" where
  "to_lower c = (if 65 \<le> c \<and> c \<le> 90 then c + 32 else c)"

fun normalize_from :: "bool \<Rightarrow> bool \<Rightarrow> pystr \<Rightarrow> pystr" where
  "normalize_from punct started [] = []"
| "normalize_from punct started (c # cs) =
     (if is_alnum_dot c then
        (if punct \<and> started then [95] else []) @ to_lower c # normalize_from False True cs
      else normalize_from True started cs)"

definition normalize_encoding :: "pystr \<Rightarrow> pystr option" where
  "normalize_encoding e =
     (let n = normalize_from False False e in if length n \<le> 10 then Some n else None)"

text \<open>The fast paths of \<open>PyUnicode_Decode\<close> for the codecs modelled here.\<close>

definition fast_codec :: "pystr \<Rightarrow> codec option" where
  "fast_codec n =
     (if n = ustr ''utf8'' \<or> n = ustr ''utf_8'' then Some UTF8
      else if n = ustr ''ascii'' \<or> n = ustr ''us_ascii'' then Some ASCII
      else if n = ustr ''latin1'' \<or> n = ustr ''latin_1'' \<or> n = ustr ''iso_8859_1''
              \<or> n = ustr ''iso8859_1'' then Some Latin1
      else None)"

definition registry_decode :: "registry \<Rightarrow> pystr \<Rightarrow> bytes \<Rightarrow> decode_error + pystr" where
  "registry_decode reg name bs = (case reg name of None \<Rightarrow> Inl (LookupError name) | Some d \<Rightarrow> d bs)"

text \<open>What a codec of the registry promises: the \<open>str\<close> it returns holds Unicode scalar
  values only (a Python \<open>str\<close> built by a codec holds no lone surrogate).\<close>

definition registry_ok :: "registry \<Rightarrow> bool" where
  "registry_ok reg \<longleftrightarrow> (\<forall>n d bs t. reg n = Some d \<longrightarrow> d bs = Inr t \<longrightarrow> list_all is_scalar t)"

definition is_surrogate :: "codepoint \<Rightarrow> bool" where
  "is_surrogate c \<longleftrightarrow> 0xD800 \<le> c \<and> c \<le> 0xDFFF"

text \<open>The \<open>str\<close> argument converter (\<open>PyUnicode_AsUTF8AndSize\<close>): the strict UTF-8
  encoder stops at the first surrogate and reports the run of surrogates starting there.\<close>

definition surrogate_error :: "pystr \<Rightarrow> decode_error" where
  "surrogate_error name =
     (let i = length (takeWhile (\<lambda>c. \<not> is_surrogate c) name) in
      UnicodeEncodeError name i (i + length (takeWhile is_surrogate (drop i name))))"

text \<open>\<open>bytes.decode(encoding)\<close> (\<open>bytes_decode_impl\<close>, \<open>PyUnicode_FromEncodedObject\<close>):
  the argument converter needs a \<open>str\<close> (else \<open>TypeError\<close>) that encodes to UTF-8
  (else \<open>UnicodeEncodeError\<close>) without an embedded NUL (else \<open>ValueError\<close>); an empty
  byte string then gives \<open>''\<close> at once, without looking the codec up (a release build
  checks the name only in development mode); otherwise the fast path or the registry.\<close>

definition bytes_decode :: "registry \<Rightarrow> pyval \<Rightarrow> bytes \<Rightarrow> decode_error + pystr" where
  "bytes_decode reg enc bs =
     (case enc of
        PyStr name \<Rightarrow>
          if list_ex is_surrogate name then Inl (surrogate_error name)
          else if 0 \<in> set name then Inl ValueError
          else if bs = [] then Inr []
          else (case Option.bind (normalize_encoding name) fast_codec of
                  Some c \<Rightarrow> codec_decode c bs
                | None \<Rightarrow> registry_decode reg name bs)
      | _ \<Rightarrow> Inl TypeError)"

subsection \<open>Basic facts of one decoder step\<close>

lemma utf8_next_len: "utf8_next b rest = Inr (c, k) \<Longrightarrow> 1 \<le> k \<and> k \<le> Suc (length rest)"
  by (auto simp: utf8_next_def Let_def split: if_splits list.splits)

subsection \<open>One decoder step against the encoder\<close>

lemma sec3_arith:
  fixes d0 d1 d2 :: nat
  assumes "c = d0 * 4096 + d1 * 64 + d2" "d1 < 64" "d2 < 64" "0x800 \<le> c" "c < 0x10000"
    "\<not> (0xD800 \<le> c \<and> c \<le> 0xDFFF)"
  shows "d0 < 16 \<and> (d1 + 128 < 160 \<longrightarrow> d0 \<noteq> 0) \<and> (\<not> d1 + 128 < 160 \<longrightarrow> d0 \<noteq> 13)"
  using assms by arith

lemma sec4_arith:
  fixes d0 d1 d2 d3 :: nat
  assumes "c = d0 * 262144 + d1 * 4096 + d2 * 64 + d3" "d1 < 64" "d2 < 64" "d3 < 64"
    "0x10000 \<le> c" "c < 0x110000"
  shows "d0 < 5 \<and> (d1 + 128 < 144 \<longrightarrow> d0 \<noteq> 0) \<and> (\<not> d1 + 128 < 144 \<longrightarrow> d0 \<noteq> 4)"
  using assms by arith

lemma unat_cont_byte: "d < 64 \<Longrightarrow> unat (byte_of (0x80 + d)) = 0x80 + d"
  by (rule unat_byte_of) simp

lemma is_cont_byte: "d < 64 \<Longrightarrow> is_cont (byte_of (0x80 + d))"
  by (simp add: is_cont_def unat_cont_byte)

lemma next_enc1: "c < 0x80 \<Longrightarrow> utf8_next (byte_of c) rest = Inr (c, 1)"
  by (simp add: utf8_next_def unat_byte_of)

lemma next_enc2:
  assumes "0x80 \<le> c" "c < 0x800"
  shows "utf8_next (byte_of (0xC0 + c div 64)) (byte_of (0x80 + c mod 64) # rest) = Inr (c, 2)"
proof -
  have d: "2 \<le> c div 64" "c div 64 < 32" "c mod 64 < 64" using assms by simp_all
  have b0: "unat (byte_of (0xC0 + c div 64)) = 0xC0 + c div 64"
    using d by (intro unat_byte_of) simp
  have "c div 64 * 64 + c mod 64 = c" by simp
  then show ?thesis using d
    by (simp add: utf8_next_def Let_def b0 is_cont_byte unat_cont_byte push_bit_nat_mult)
qed

lemma next_enc3:
  assumes "0x800 \<le> c" "c < 0x10000" "\<not> (0xD800 \<le> c \<and> c \<le> 0xDFFF)"
  shows "utf8_next (byte_of (0xE0 + c div 4096))
           (byte_of (0x80 + c div 64 mod 64) # byte_of (0x80 + c mod 64) # rest) = Inr (c, 3)"
proof -
  define d0 d1 d2 where "d0 = c div 4096" and "d1 = c div 64 mod 64" and "d2 = c mod 64"
  have c: "c = d0 * 4096 + d1 * 64 + d2" and d: "d1 < 64" "d2 < 64"
    using split3[of c] by (simp_all add: d0_def d1_def d2_def)
  have s: "d0 < 16 \<and> (d1 + 128 < 160 \<longrightarrow> d0 \<noteq> 0) \<and> (\<not> d1 + 128 < 160 \<longrightarrow> d0 \<noteq> 13)"
    using sec3_arith[OF c d] assms by blast
  have b0: "unat (byte_of (0xE0 + d0)) = 0xE0 + d0"
    using s by (intro unat_byte_of) simp
  have ok: "second_ok3 (0xE0 + d0) (byte_of (0x80 + d1))"
    using s d by (simp add: second_ok3_def is_cont_byte unat_cont_byte)
  have "utf8_next (byte_of (0xE0 + d0)) (byte_of (0x80 + d1) # byte_of (0x80 + d2) # rest)
        = Inr (d0 * 4096 + d1 * 64 + d2, 3)"
    using s d ok by (simp add: utf8_next_def Let_def b0 is_cont_byte unat_cont_byte push_bit_nat_mult)
  then show ?thesis by (simp only: d0_def d1_def d2_def split3)
qed

lemma next_enc4:
  assumes "0x10000 \<le> c" "c < 0x110000"
  shows "utf8_next (byte_of (0xF0 + c div 262144))
           (byte_of (0x80 + c div 4096 mod 64) # byte_of (0x80 + c div 64 mod 64)
            # byte_of (0x80 + c mod 64) # rest) = Inr (c, 4)"
proof -
  define d0 d1 d2 d3 where "d0 = c div 262144" and "d1 = c div 4096 mod 64"
    and "d2 = c div 64 mod 64" and "d3 = c mod 64"
  have c: "c = d0 * 262144 + d1 * 4096 + d2 * 64 + d3" and d: "d1 < 64" "d2 < 64" "d3 < 64"
    using split4[of c] by (simp_all add: d0_def d1_def d2_def d3_def)
  have s: "d0 < 5 \<and> (d1 + 128 < 144 \<longrightarrow> d0 \<noteq> 0) \<and> (\<not> d1 + 128 < 144 \<longrightarrow> d0 \<noteq> 4)"
    using sec4_arith[OF c d] assms by blast
  have b0: "unat (byte_of (0xF0 + d0)) = 0xF0 + d0"
    using s by (intro unat_byte_of) simp
  have ok: "second_ok4 (0xF0 + d0) (byte_of (0x80 + d1))"
    using s d by (simp add: second_ok4_def is_cont_byte unat_cont_byte)
  have "utf8_next (byte_of (0xF0 + d0))
          (byte_of (0x80 + d1) # byte_of (0x80 + d2) # byte_of (0x80 + d3) # rest)
        = Inr (d0 * 262144 + d1 * 4096 + d2 * 64 + d3, 4)"
    using s d ok by (simp add: utf8_next_def Let_def b0 is_cont_byte unat_cont_byte push_bit_nat_mult)
  then show ?thesis by (simp only: d0_def d1_def d2_def d3_def split4)
qed


lemma dec_enc1: "unat b < 0x80 \<Longrightarrow> is_scalar (unat b) \<and> utf8_encode_char (unat b) = [b]"
  by (simp add: is_scalar_def utf8_encode_char_def byte_of_unat)

lemma dec_enc2:
  assumes "0xC2 \<le> unat b" "unat b < 0xE0" "is_cont b2"
  shows "is_scalar (push_bit 6 (unat b) + unat b2 - (push_bit 6 0xC0 + 0x80))
       \<and> utf8_encode_char (push_bit 6 (unat b) + unat b2 - (push_bit 6 0xC0 + 0x80)) = [b, b2]"
proof -
  define d0 d1 where "d0 = unat b - 0xC0" and "d1 = unat b2 - 0x80"
  have d: "d1 < 64" "2 \<le> d0" "d0 < 32" using assms by (auto simp: d0_def d1_def is_cont_def)
  have u: "unat b = 0xC0 + d0" "unat b2 = 0x80 + d1"
    using assms by (simp_all add: d0_def d1_def is_cont_def)
  have c: "push_bit 6 (unat b) + unat b2 - (push_bit 6 0xC0 + 0x80) = d0 * 64 + d1"
    by (simp add: u push_bit_nat_mult)
  have "(d0 * 64 + d1) div 64 = d0" "(d0 * 64 + d1) mod 64 = d1" using digits2 d(1) by blast+
  then have "is_scalar (d0 * 64 + d1) \<and> utf8_encode_char (d0 * 64 + d1) = [b, b2]"
    using d by (simp add: is_scalar_def utf8_encode_char_def u [symmetric] byte_of_unat)
  then show ?thesis unfolding c .
qed

lemma dec_enc3:
  assumes "0xE0 \<le> unat b" "unat b < 0xF0" "second_ok3 (unat b) b2" "is_cont b3"
  shows "is_scalar (push_bit 12 (unat b) + push_bit 6 (unat b2) + unat b3
                    - (push_bit 12 0xE0 + push_bit 6 0x80 + 0x80))
       \<and> utf8_encode_char (push_bit 12 (unat b) + push_bit 6 (unat b2) + unat b3
                    - (push_bit 12 0xE0 + push_bit 6 0x80 + 0x80)) = [b, b2, b3]"
proof -
  define d0 d1 d2 where "d0 = unat b - 0xE0" and "d1 = unat b2 - 0x80" and "d2 = unat b3 - 0x80"
  have d: "d1 < 64" "d2 < 64" "d0 < 16" "d0 = 0 \<longrightarrow> 32 \<le> d1" "d0 = 13 \<longrightarrow> d1 < 32"
    using assms by (auto simp: d0_def d1_def d2_def is_cont_def second_ok3_def split: if_splits)
  have u: "unat b = 0xE0 + d0" "unat b2 = 0x80 + d1" "unat b3 = 0x80 + d2"
    using assms by (simp_all add: d0_def d1_def d2_def is_cont_def second_ok3_def)
  define c where "c = d0 * 4096 + d1 * 64 + d2"
  have cv: "push_bit 12 (unat b) + push_bit 6 (unat b2) + unat b3
              - (push_bit 12 0xE0 + push_bit 6 0x80 + 0x80) = c"
    by (simp add: u push_bit_nat_mult c_def)
  have r: "0x800 \<le> c" "c < 0x10000" "\<not> (0xD800 \<le> c \<and> c \<le> 0xDFFF)"
    using range3[OF d] unfolding c_def by blast+
  have "c div 4096 = d0 \<and> c div 64 mod 64 = d1 \<and> c mod 64 = d2"
    using digits3 c_def d(1,2) by blast
  then have "is_scalar c \<and> utf8_encode_char c = [b, b2, b3]"
    using r by (simp add: is_scalar_def utf8_encode_char_def u [symmetric] byte_of_unat)
  then show ?thesis unfolding cv .
qed

lemma dec_enc4:
  assumes "0xF0 \<le> unat b" "unat b < 0xF5" "second_ok4 (unat b) b2" "is_cont b3" "is_cont b4"
  shows "is_scalar (push_bit 18 (unat b) + push_bit 12 (unat b2) + push_bit 6 (unat b3) + unat b4
                    - (push_bit 18 0xF0 + push_bit 12 0x80 + push_bit 6 0x80 + 0x80))
       \<and> utf8_encode_char (push_bit 18 (unat b) + push_bit 12 (unat b2) + push_bit 6 (unat b3)
                    + unat b4 - (push_bit 18 0xF0 + push_bit 12 0x80 + push_bit 6 0x80 + 0x80))
           = [b, b2, b3, b4]"
proof -
  define d0 d1 d2 d3 where "d0 = unat b - 0xF0" and "d1 = unat b2 - 0x80"
    and "d2 = unat b3 - 0x80" and "d3 = unat b4 - 0x80"
  have d: "d1 < 64" "d2 < 64" "d3 < 64" "d0 < 5" "d0 = 0 \<longrightarrow> 16 \<le> d1" "d0 = 4 \<longrightarrow> d1 < 16"
    using assms by (auto simp: d0_def d1_def d2_def d3_def is_cont_def second_ok4_def split: if_splits)
  have u: "unat b = 0xF0 + d0" "unat b2 = 0x80 + d1" "unat b3 = 0x80 + d2" "unat b4 = 0x80 + d3"
    using assms by (simp_all add: d0_def d1_def d2_def d3_def is_cont_def second_ok4_def)
  define c where "c = d0 * 262144 + d1 * 4096 + d2 * 64 + d3"
  have cv: "push_bit 18 (unat b) + push_bit 12 (unat b2) + push_bit 6 (unat b3) + unat b4
              - (push_bit 18 0xF0 + push_bit 12 0x80 + push_bit 6 0x80 + 0x80) = c"
    by (simp add: u push_bit_nat_mult c_def)
  have r: "0x10000 \<le> c" "c < 0x110000"
    using range4[OF d] unfolding c_def by blast+
  have "c div 262144 = d0 \<and> c div 4096 mod 64 = d1 \<and> c div 64 mod 64 = d2 \<and> c mod 64 = d3"
    using digits4 c_def d(1,2,3) by blast
  then have "is_scalar c \<and> utf8_encode_char c = [b, b2, b3, b4]"
    using r by (simp add: is_scalar_def utf8_encode_char_def u [symmetric] byte_of_unat)
  then show ?thesis unfolding cv .
qed


lemma utf8_encode_char_nonempty: "\<exists>b bs. utf8_encode_char c = b # bs \<and> length bs < 4"
  by (simp add: utf8_encode_char_def)

lemma utf8_next_encode:
  assumes "is_scalar c" "utf8_encode_char c = b # bs"
  shows "utf8_next b (bs @ rest) = Inr (c, Suc (length bs))"
proof -
  consider "c < 0x80" | "0x80 \<le> c" "c < 0x800" | "0x800 \<le> c" "c < 0x10000"
    | "0x10000 \<le> c" "c < 0x110000"
    using assms(1) unfolding is_scalar_def by linarith
  then show ?thesis
  proof cases
    case 1
    then show ?thesis using assms(2) next_enc1[OF 1] by (auto simp: utf8_encode_char_def)
  next
    case 2
    then show ?thesis using assms(2) next_enc2[OF 2] by (auto simp: utf8_encode_char_def)
  next
    case 3
    then show ?thesis using assms next_enc3[OF 3] by (auto simp: utf8_encode_char_def is_scalar_def)
  next
    case 4
    then show ?thesis using assms(2) next_enc4[OF 4] by (auto simp: utf8_encode_char_def)
  qed
qed

lemma utf8_next_Inr:
  assumes "utf8_next b rest = Inr (c, k)"
  shows "is_scalar c \<and> utf8_encode_char c = b # take (k - 1) rest \<and> k - 1 \<le> length rest"
  using assms dec_enc1 dec_enc2 dec_enc3 dec_enc4
  by (auto simp: utf8_next_def Let_def split: if_splits list.splits)

subsection \<open>The decoding loop\<close>

lemma utf8_decode_from_encode_append:
  assumes "\<forall>c \<in> set cs. is_scalar c"
  shows "utf8_decode_from i (utf8_encode cs @ ys) =
           (case utf8_decode_from (i + length (utf8_encode cs)) ys of
              Inl e \<Rightarrow> Inl e | Inr ds \<Rightarrow> Inr (cs @ ds))"
  using assms
proof (induction cs arbitrary: i)
  case Nil
  then show ?case by (simp add: utf8_encode_def split: sum.split)
next
  case (Cons c cs)
  obtain b bs where e: "utf8_encode_char c = b # bs"
    using utf8_encode_char_nonempty by blast
  have n: "utf8_next b (bs @ utf8_encode cs @ ys) = Inr (c, Suc (length bs))"
    using Cons.prems e by (intro utf8_next_encode) simp_all
  have enc: "utf8_encode (c # cs) @ ys = b # (bs @ utf8_encode cs @ ys)"
    "length (utf8_encode (c # cs)) = Suc (length bs) + length (utf8_encode cs)"
    by (simp_all add: utf8_encode_def e)
  have "utf8_decode_from i (utf8_encode (c # cs) @ ys)
          = utf8_decode_from i (b # (bs @ utf8_encode cs @ ys))"
    by (simp only: enc)
  also have "\<dots> = (case utf8_decode_from (i + Suc (length bs)) (utf8_encode cs @ ys) of
                     Inl e \<Rightarrow> Inl e | Inr ds \<Rightarrow> Inr (c # ds))"
    by (simp add: n)
  also have "\<dots> = (case utf8_decode_from (i + Suc (length bs) + length (utf8_encode cs)) ys of
                     Inl e \<Rightarrow> Inl e | Inr ds \<Rightarrow> Inr (c # cs @ ds))"
    using Cons by (simp split: sum.split)
  also have "\<dots> = (case utf8_decode_from (i + length (utf8_encode (c # cs))) ys of
                     Inl e \<Rightarrow> Inl e | Inr ds \<Rightarrow> Inr ((c # cs) @ ds))"
    by (simp add: enc(2) add.assoc split: sum.split)
  finally show ?case .
qed

text \<open>C12: decoding the UTF-8 encoding of any sequence of Unicode scalar values
  gives that sequence back: the strict decoder accepts every well-formed input.\<close>

theorem utf8_decode_encode:
  assumes "\<forall>c \<in> set cs. is_scalar c"
  shows "utf8_decode (utf8_encode cs) = Inr cs"
  using utf8_decode_from_encode_append[OF assms, of 0 "[]"] by (simp add: utf8_decode_def)

lemma utf8_decode_encode_witness:
  "is_scalar 0x41 \<and> is_scalar 0xE9 \<and> is_scalar 0x20AC \<and> is_scalar 0x1F600
   \<and> utf8_decode (utf8_encode [0x41, 0xE9, 0x20AC, 0x1F600]) = Inr [0x41, 0xE9, 0x20AC, 0x1F600]"
  using utf8_decode_encode [of "[0x41, 0xE9, 0x20AC, 0x1F600]"] by (simp add: is_scalar_def)

lemma utf8_decode_from_Inr:
  "utf8_decode_from i bs = Inr cs \<Longrightarrow> utf8_encode cs = bs \<and> (\<forall>c \<in> set cs. is_scalar c)"
proof (induction i bs arbitrary: cs rule: utf8_decode_from.induct)
  case (1 i)
  then show ?case by (simp add: utf8_encode_def)
next
  case (2 i b bs)
  then obtain c k cs' where n: "utf8_next b bs = Inr (c, k)"
    and r: "utf8_decode_from (i + k) (drop (k - 1) bs) = Inr cs'" and cs: "cs = c # cs'"
    by (auto split: sum.splits prod.splits)
  have "utf8_encode cs' = drop (k - 1) bs \<and> (\<forall>c \<in> set cs'. is_scalar c)"
    using "2.IH"[OF n refl r] .
  moreover have "is_scalar c \<and> utf8_encode_char c = b # take (k - 1) bs"
    using utf8_next_Inr[OF n] by blast
  ultimately show ?case by (simp add: cs utf8_encode_def)
qed

text \<open>C13: the decoder accepts only shortest-form UTF-8 of scalar values: whatever it
  decodes successfully is exactly the encoding of its result, and the result contains no
  surrogate and nothing above U+10FFFF.\<close>

theorem utf8_decode_canonical:
  "utf8_decode_from i bs = Inr cs \<Longrightarrow> utf8_encode cs = bs \<and> (\<forall>c \<in> set cs. is_scalar c)"
  by (rule utf8_decode_from_Inr)

lemma utf8_decode_canonical_witness:
  "utf8_decode_from 0 [0xC3, 0xA9] = Inr [0xE9]
   \<and> utf8_encode [0xE9] = [0xC3, 0xA9] \<and> is_scalar 0xE9"
proof -
  have d: "utf8_decode_from 0 [0xC3, 0xA9] = Inr [0xE9]"
    by (simp add: utf8_next_def is_cont_def)
  show ?thesis using d utf8_decode_canonical [OF d] by simp
qed

subsection \<open>Errors, ASCII and the choice of codec\<close>

lemma utf8_next_Inl_len: "utf8_next b rest = Inl (r, k) \<Longrightarrow> 1 \<le> k \<and> k \<le> Suc (length rest)"
  by (auto simp: utf8_next_def Let_def split: if_splits list.splits)

lemma utf8_next_ascii: "unat b < 0x80 \<Longrightarrow> utf8_next b rest = Inr (unat b, 1)"
  by (simp add: utf8_next_def)

text \<open>C14: a decoding error is attributable to one place of the message: it is a
  \<open>UnicodeDecodeError\<close> whose start and end lie inside the input with start before end,
  and all bytes before the start are well-formed UTF-8.\<close>

theorem utf8_decode_from_error:
  assumes "utf8_decode_from i bs = Inl e"
  shows "\<exists>r s t. e = UnicodeDecodeError (ustr ''utf-8'') r s t \<and> i \<le> s \<and> s < t
           \<and> t \<le> i + length bs
           \<and> (\<exists>cs. take (s - i) bs = utf8_encode cs \<and> (\<forall>c \<in> set cs. is_scalar c))"
  using assms
proof (induction i bs arbitrary: e rule: utf8_decode_from.induct)
  case (1 i)
  then show ?case by simp
next
  case (2 i b bs)
  show ?case
  proof (cases "utf8_next b bs")
    case (Inl rk)
    obtain r k where rk: "rk = (r, k)" by (cases rk)
    then have "1 \<le> k \<and> k \<le> Suc (length bs)" using utf8_next_Inl_len Inl by blast
    moreover have "e = UnicodeDecodeError (ustr ''utf-8'') r i (i + k)"
      using "2.prems" Inl rk by simp
    ultimately show ?thesis by (auto intro: exI [of _ "[]"] simp: utf8_encode_def)
  next
    case (Inr ck)
    obtain c k where ck: "ck = (c, k)" by (cases ck)
    have n: "utf8_next b bs = Inr (c, k)" using Inr ck by simp
    have rec: "utf8_decode_from (i + k) (drop (k - 1) bs) = Inl e"
      using "2.prems" n by (simp split: sum.splits)
    obtain r s t cs where e: "e = UnicodeDecodeError (ustr ''utf-8'') r s t"
      and st: "i + k \<le> s" "s < t" "t \<le> i + k + length (drop (k - 1) bs)"
      and cs: "take (s - (i + k)) (drop (k - 1) bs) = utf8_encode cs" "\<forall>c \<in> set cs. is_scalar c"
      using "2.IH"[OF n refl rec] by blast
    have c: "is_scalar c \<and> utf8_encode_char c = b # take (k - 1) bs \<and> k - 1 \<le> length bs"
      using utf8_next_Inr[OF n] .
    have k: "1 \<le> k" using utf8_next_len[OF n] by simp
    have "take (s - i) (b # bs) = b # take (k - 1) bs @ take (s - (i + k)) (drop (k - 1) bs)"
      using st k by (simp add: take_add [symmetric] take_Cons')
    also have "\<dots> = utf8_encode (c # cs)"
      using c cs by (simp add: utf8_encode_def)
    finally have "\<exists>cs'. take (s - i) (b # bs) = utf8_encode cs' \<and> (\<forall>c \<in> set cs'. is_scalar c)"
      using c cs by (intro exI [of _ "c # cs"]) simp
    then show ?thesis using e st c k by auto
  qed
qed

lemma utf8_decode_from_error_witness:
  "utf8_decode_from 0 [0x41, 0xFF] = Inl (UnicodeDecodeError (ustr ''utf-8'') InvalidStartByte 1 2)
   \<and> (\<exists>cs. take 1 [0x41, 0xFF :: byte] = utf8_encode cs \<and> (\<forall>c \<in> set cs. is_scalar c))"
proof -
  have d: "utf8_decode_from 0 [0x41, 0xFF] = Inl (UnicodeDecodeError (ustr ''utf-8'') InvalidStartByte 1 2)"
    by (simp add: utf8_next_def)
  from utf8_decode_from_error [OF d] obtain r s t cs
    where e: "UnicodeDecodeError (ustr ''utf-8'') InvalidStartByte 1 2 = UnicodeDecodeError (ustr ''utf-8'') r s t"
      and cs: "take (s - 0) [0x41, 0xFF :: byte] = utf8_encode cs" "\<forall>c \<in> set cs. is_scalar c"
    by blast
  from e have "s = 1" by simp
  with d cs show ?thesis by auto
qed

lemma ascii_decode_from_Inr:
  "ascii_decode_from i bs = Inr cs \<Longrightarrow> (\<forall>b \<in> set bs. unat b < 0x80) \<and> cs = map unat bs"
  by (induction i bs arbitrary: cs rule: ascii_decode_from.induct) (auto split: sum.splits if_splits)

lemma ascii_decode_from_ascii:
  "\<forall>b \<in> set bs. unat b < 0x80 \<Longrightarrow> ascii_decode_from i bs = Inr (map unat bs)"
  by (induction i bs rule: ascii_decode_from.induct) auto

text \<open>C16: where the ASCII codec succeeds, UTF-8 decoding gives the same text.\<close>

theorem ascii_decode_agrees_utf8:
  "ascii_decode_from i bs = Inr cs \<Longrightarrow> utf8_decode_from i bs = Inr cs"
  by (induction i bs arbitrary: cs rule: ascii_decode_from.induct)
     (auto simp: utf8_next_ascii split: sum.splits if_splits)

lemma ascii_decode_agrees_utf8_witness:
  "ascii_decode_from 0 (bstr ''ping'') = Inr (ustr ''ping'') \<and> utf8_decode_from 0 (bstr ''ping'') = Inr (ustr ''ping'')"
proof -
  have a: "ascii_decode_from 0 (bstr ''ping'') = Inr (ustr ''ping'')" by simp
  show ?thesis using a ascii_decode_agrees_utf8 [OF a] by simp
qed

subsection \<open>Encoding names\<close>

lemma to_lower_idem: "to_lower (to_lower c) = to_lower c"
  by (simp add: to_lower_def)

lemma is_alnum_dot_lower: "is_alnum_dot (to_lower c) = is_alnum_dot c"
  by (auto simp: is_alnum_dot_def to_lower_def)

lemma normalize_from_lower: "normalize_from p st (map to_lower cs) = normalize_from p st cs"
  by (induction p st cs rule: normalize_from.induct) (simp_all add: is_alnum_dot_lower to_lower_idem)

lemma to_lower_zero: "to_lower c = 0 \<longleftrightarrow> c = 0"
  by (simp add: to_lower_def)

lemma bytes_decode_lookup_error:
  assumes "\<not> list_ex is_surrogate name" "0 \<notin> set name" "bs \<noteq> []"
    and "Option.bind (normalize_encoding name) fast_codec = None" "reg name = None"
  shows "bytes_decode reg (PyStr name) bs = Inl (LookupError name)"
  using assms by (simp add: bytes_decode_def registry_decode_def)

lemma is_surrogate_lower: "is_surrogate (to_lower c) \<longleftrightarrow> is_surrogate c"
  by (simp add: is_surrogate_def to_lower_def)

text \<open>C22: for an encoding name that is a valid \<open>str\<close> argument and whose lower-case form
  selects a fast-path codec, \<open>bytes.decode\<close> does not depend on the case of the ASCII
  letters of the name.\<close>

theorem bytes_decode_case_insensitive:
  assumes "\<not> list_ex is_surrogate name"
    and "Option.bind (normalize_encoding (map to_lower name)) fast_codec \<noteq> None"
  shows "bytes_decode reg (PyStr (map to_lower name)) bs = bytes_decode reg (PyStr name) bs"
proof -
  have "0 \<in> set (map to_lower name) \<longleftrightarrow> 0 \<in> set name"
    by (auto simp: to_lower_zero)
  moreover have "list_ex is_surrogate (map to_lower name) \<longleftrightarrow> list_ex is_surrogate name"
    by (simp add: list_ex_iff is_surrogate_lower)
  moreover have "normalize_encoding (map to_lower name) = normalize_encoding name"
    by (simp add: normalize_encoding_def normalize_from_lower)
  ultimately show ?thesis using assms by (auto simp: bytes_decode_def split: option.split)
qed

lemma bytes_decode_case_insensitive_witness:
  "\<not> list_ex is_surrogate (ustr ''Latin-1'')
   \<and> Option.bind (normalize_encoding (map to_lower (ustr ''Latin-1''))) fast_codec \<noteq> None
   \<and> bytes_decode (\<lambda>_. None) (PyStr (map to_lower (ustr ''Latin-1''))) [0xE9]
       = bytes_decode (\<lambda>_. None) (PyStr (ustr ''Latin-1'')) [0xE9]"
proof -
  have h: "\<not> list_ex is_surrogate (ustr ''Latin-1'')"
    "Option.bind (normalize_encoding (map to_lower (ustr ''Latin-1''))) fast_codec \<noteq> None"
    by (simp_all add: is_surrogate_def normalize_encoding_def is_alnum_dot_def to_lower_def fast_codec_def)
  show ?thesis using h bytes_decode_case_insensitive [OF h, of "\<lambda>_. None" "[0xE9]"] by blast
qed

lemma codec_decode_empty: "codec_decode c [] = Inr []"
  by (cases c) (simp_all add: codec_decode_def utf8_decode_def latin1_decode_def)

lemma utf8_fast_path: "bytes_decode reg (PyStr (ustr ''utf-8'')) bs = utf8_decode bs"
  using codec_decode_empty [of UTF8]
  by (simp add: bytes_decode_def normalize_encoding_def fast_codec_def codec_decode_def
                is_alnum_dot_def to_lower_def is_surrogate_def)


lemma is_scalar_byte: "is_scalar (unat (b :: byte))"
  using unat_byte_less [of b] by (simp add: is_scalar_def)

lemma codec_decode_scalar: "codec_decode c bs = Inr t \<Longrightarrow> list_all is_scalar t"
proof (cases c)
  case UTF8
  assume "codec_decode c bs = Inr t"
  then show ?thesis using UTF8 utf8_decode_from_Inr [of 0 bs t]
    by (simp add: codec_decode_def utf8_decode_def list_all_iff)
next
  case ASCII
  assume "codec_decode c bs = Inr t"
  then show ?thesis using ASCII ascii_decode_from_Inr [of 0 bs t]
    by (auto simp: codec_decode_def list_all_iff is_scalar_def)
next
  case Latin1
  assume "codec_decode c bs = Inr t"
  then show ?thesis using Latin1
    by (auto simp: codec_decode_def latin1_decode_def list_all_iff is_scalar_byte)
qed

lemma bytes_decode_scalar:
  assumes "registry_ok reg" "bytes_decode reg e bs = Inr t"
  shows "list_all is_scalar t"
  using assms codec_decode_scalar
  by (auto simp: bytes_decode_def registry_decode_def registry_ok_def
      split: pyval.splits if_splits option.splits)



end
