(* ===== verification/Config.thy ===== *)
theory Config
  imports Prelude
begin

text \<open>
  Reading the plugin arguments and building the broker URL: lines 39--46 of
  \<open>src/extensions/eda/plugins/event_source/amq.py\<close>.  \<open>args\<close> is a Python dictionary,
  modelled as a map from \<open>str\<close> keys to values; \<open>args.get(k)\<close> gives \<open>None\<close> for a
  missing key and \<open>args.get(k, d)\<close> the default.  The URL is the f-string of line 46: the scheme \<open>amqp://\<close>,
  then \<open>username\<close>, a colon, \<open>password\<close>, an at sign, \<open>host\<close>, a colon,
  \<open>port\<close> and a slash, each field formatted with \<open>str()\<close>.  On the other side, the
  broker client splits the URL as CPython's \<open>urllib.parse.urlsplit\<close> does (3.12): it drops
  leading controls and every tab, CR and LF, cuts the netloc at the first \<open>/\<close>, \<open>?\<close> or
  \<open>#\<close>, refuses unbalanced brackets and checks a bracketed host
  (\<open>_check_bracketed_netloc\<close>), refuses a netloc that NFKC turns into a delimiter, and
  then reads the user information up to the last \<open>@\<close>, user and password split at the
  first \<open>:\<close>, and the host (in brackets, or up to the first \<open>:\<close>) and port
  (\<open>_userinfo\<close>, \<open>_hostinfo\<close>); the port is read by \<open>SplitResult.port\<close>.
  Percent-decoding of the user information is not modelled; the round-trip theorem
  excludes \<open>%\<close>.
\<close>

type_synonym args = "pystr \<Rightarrow> pyval option"

subsection \<open>Arguments\<close>

definition args_get :: "args \<Rightarrow> pystr \<Rightarrow> pyval" where
  "args_get a k = (case a k of None \<Rightarrow> PyNone | Some v \<Rightarrow> v)"

definition args_get_default :: "args \<Rightarrow> pystr \<Rightarrow> pyval \<Rightarrow> pyval" where
  "args_get_default a k d = (case a k of None \<Rightarrow> d | Some v \<Rightarrow> v)"

record params =
  channel_name :: pyval
  host :: pyval
  port :: pyval
  username :: pyval
  password :: pyval
  encoding :: pyval

definition read_params :: "args \<Rightarrow> params" where
  "read_params a =
     \<lparr>channel_name = args_get a (ustr ''channel''),
      host = args_get a (ustr ''host''),
      port = args_get a (ustr ''port''),
      username = args_get a (ustr ''username''),
      password = args_get a (ustr ''password''),
      encoding = args_get_default a (ustr ''encoding'') (PyStr (ustr ''utf-8''))\<rparr>"

text \<open>The arguments of the module's \<open>__main__\<close> block (lines 66--77).\<close>

definition demo_args :: args where
  "demo_args =
     [ustr ''channel'' \<mapsto> PyStr (ustr ''hello''),
      ustr ''host'' \<mapsto> PyStr (ustr ''localhost''),
      ustr ''port'' \<mapsto> PyStr (ustr ''9092''),
      ustr ''username'' \<mapsto> PyStr (ustr ''test''),
      ustr ''password'' \<mapsto> PyStr (ustr ''test'')]"

subsection \<open>\<open>str()\<close> of a value and the URL\<close>

text \<open>\<open>str(n)\<close> of a natural number: its decimal digits, most significant first.\<close>

fun nat_str :: "nat \<Rightarrow> pystr" where
  "nat_str n = (if n < 10 then [48 + n] else nat_str (n div 10) @ [48 + n mod 10])"

definition int_str :: "int \<Rightarrow> pystr" where
  "int_str i = (if i < 0 then 45 # nat_str (nat (- i)) else nat_str (nat i))"

definition py_str :: "pyval \<Rightarrow> pystr" where
  "py_str v = (case v of
      PyStr s \<Rightarrow> s
    | PyInt i \<Rightarrow> int_str i
    | PyBool b \<Rightarrow> (if b then ustr ''True'' else ustr ''False'')
    | PyNone \<Rightarrow> ustr ''None'')"

definition amqp_url :: "params \<Rightarrow> pystr" where
  "amqp_url p =
     ustr ''amqp://'' @ py_str (username p) @ ustr '':'' @ py_str (password p) @ ustr ''@''
     @ py_str (host p) @ ustr '':'' @ py_str (port p) @ ustr ''/''"

subsection \<open>How the broker client reads the URL\<close>

text \<open>\<open>str.partition\<close> (first occurrence) and \<open>str.rpartition\<close> (last occurrence);
  \<open>None\<close> when the separator does not occur.\<close>

definition split_first :: "codepoint \<Rightarrow> pystr \<Rightarrow> (pystr \<times> pystr) option" where
  "split_first c xs =
     (if c \<in> set xs then Some (takeWhile (\<lambda>x. x \<noteq> c) xs, tl (dropWhile (\<lambda>x. x \<noteq> c) xs))
      else None)"

definition split_last :: "codepoint \<Rightarrow> pystr \<Rightarrow> (pystr \<times> pystr) option" where
  "split_last c xs = map_option (\<lambda>(a, b). (rev b, rev a)) (split_first c (rev xs))"

text \<open>The triples Python returns: \<open>s.partition(c)\<close> is \<open>(s, '', '')\<close> and
  \<open>s.rpartition(c)\<close> is \<open>('', '', s)\<close> when \<open>c\<close> does not occur; the flag says whether
  the separator was found.\<close>

definition py_partition :: "codepoint \<Rightarrow> pystr \<Rightarrow> pystr \<times> bool \<times> pystr" where
  "py_partition c xs = (case split_first c xs of None \<Rightarrow> (xs, False, []) | Some (a, b) \<Rightarrow> (a, True, b))"

definition py_rpartition :: "codepoint \<Rightarrow> pystr \<Rightarrow> pystr \<times> bool \<times> pystr" where
  "py_rpartition c xs = (case split_last c xs of None \<Rightarrow> ([], False, xs) | Some (a, b) \<Rightarrow> (a, True, b))"

record url_parts =
  url_user :: "pystr option"
  url_password :: "pystr option"
  url_host :: pystr
  url_port :: "pystr option"

text \<open>The \<open>ValueError\<close>s \<open>urlsplit\<close> raises (CPython 3.12, \<open>Lib/urllib/parse.py\<close>), and a
  URL whose scheme is not \<open>amqp\<close>.  Whether a bracketed host is an IP address, and of which
  version, is \<open>ipaddress.ip_address\<close>, a parameter \<open>ipa\<close> here; the NFKC normalisation of
  \<open>unicodedata\<close> is the parameter \<open>nfkc\<close>.\<close>

datatype url_error =
    SchemeNotAmqp | InvalidIPv6URL | InvalidIPvFuture | IPv4InBrackets | NotIPAddress | NetlocNFKC

datatype ip_version = IPv4 | IPv6

text \<open>\<open>urlsplit\<close> first strips leading C0 controls and spaces
  (\<open>_WHATWG_C0_CONTROL_OR_SPACE\<close>) and removes every tab, CR and LF
  (\<open>_UNSAFE_URL_BYTES_TO_REMOVE\<close>).  The netloc ends at the first \<open>/\<close>, \<open>?\<close> or
  \<open>#\<close> (codes 47, 63, 35; \<open>_splitnetloc\<close>).\<close>

definition url_clean :: "pystr \<Rightarrow> pystr" where
  "url_clean u = filter (\<lambda>c. c \<noteq> 9 \<and> c \<noteq> 10 \<and> c \<noteq> 13) (dropWhile (\<lambda>c. c \<le> 32) u)"

definition authority_end :: "codepoint \<Rightarrow> bool" where
  "authority_end c \<longleftrightarrow> c = 47 \<or> c = 63 \<or> c = 35"

definition is_hex :: "codepoint \<Rightarrow> bool" where
  "is_hex c \<longleftrightarrow> (48 \<le> c \<and> c \<le> 57) \<or> (65 \<le> c \<and> c \<le> 70) \<or> (97 \<le> c \<and> c \<le> 102)"

text \<open>\<open>_check_bracketed_host\<close>: a host starting with \<open>v\<close> must match
  \<open>\Av[a-fA-F0-9]+\..+\Z\<close>; any other must be an IPv6 address.\<close>

definition ipvfuture_ok :: "pystr \<Rightarrow> bool" where
  "ipvfuture_ok h =
     (case h of
        v # rest \<Rightarrow>
          v = 118 \<and> takeWhile is_hex rest \<noteq> []
          \<and> (case dropWhile is_hex rest of d # t \<Rightarrow> d = 46 \<and> t \<noteq> [] \<and> 10 \<notin> set t | [] \<Rightarrow> False)
      | [] \<Rightarrow> False)"

definition check_bracketed_host :: "(pystr \<Rightarrow> ip_version option) \<Rightarrow> pystr \<Rightarrow> url_error option" where
  "check_bracketed_host ipa h =
     (if take 1 h = [118] then (if ipvfuture_ok h then None else Some InvalidIPvFuture)
      else (case ipa h of None \<Rightarrow> Some NotIPAddress | Some IPv4 \<Rightarrow> Some IPv4InBrackets
                        | Some IPv6 \<Rightarrow> None))"

text \<open>\<open>_check_bracketed_netloc\<close>: nothing before \<open>[\<close> in the host part, nothing but a
  \<open>:port\<close> after \<open>]\<close>, and the host inside the brackets checked.\<close>

definition check_bracketed_netloc :: "(pystr \<Rightarrow> ip_version option) \<Rightarrow> pystr \<Rightarrow> url_error option" where
  "check_bracketed_netloc ipa netloc =
     (let (_, _, hp) = py_rpartition 64 netloc;
          (before, have_br, bracketed) = py_partition 91 hp
      in if have_br then
           (if before \<noteq> [] then Some InvalidIPv6URL
            else (let (h, _, pt) = py_partition 93 bracketed in
                  if pt \<noteq> [] \<and> take 1 pt \<noteq> [58] then Some InvalidIPv6URL
                  else check_bracketed_host ipa h))
         else (let (h, _, _) = py_partition 58 hp in check_bracketed_host ipa h))"

text \<open>\<open>_checknetloc\<close>: a non-ASCII netloc whose NFKC form (without \<open>@:#?\<close>) differs and
  contains one of \<open>/?#@:\<close> is refused.\<close>

definition check_netloc :: "(pystr \<Rightarrow> pystr) \<Rightarrow> pystr \<Rightarrow> url_error option" where
  "check_netloc nfkc netloc =
     (if netloc = [] \<or> list_all (\<lambda>c. c < 128) netloc then None
      else (let n = filter (\<lambda>c. c \<noteq> 64 \<and> c \<noteq> 58 \<and> c \<noteq> 35 \<and> c \<noteq> 63) netloc;
                n2 = nfkc n
            in if n = n2 then None
               else if list_ex (\<lambda>c. c \<in> {47, 63, 35, 64, 58}) n2 then Some NetlocNFKC else None))"

text \<open>\<open>SplitResult._hostinfo\<close>: a host in brackets runs to \<open>]\<close> and the port follows the
  next \<open>:\<close>; otherwise host and port split at the first \<open>:\<close>.  An empty port is
  \<open>None\<close>.\<close>

definition split_hostinfo :: "pystr \<Rightarrow> pystr \<times> pystr option" where
  "split_hostinfo hi =
     (let (_, have_br, bracketed) = py_partition 91 hi;
          (h, pt) = (if have_br then (let (h, _, rest) = py_partition 93 bracketed;
                                          (_, _, pt) = py_partition 58 rest in (h, pt))
                     else (let (h, _, pt) = py_partition 58 hi in (h, pt)))
      in (h, if pt = [] then None else Some pt))"

text \<open>\<open>SplitResult._userinfo\<close> and \<open>_hostinfo\<close> together: the user information runs to
  the last \<open>@\<close>, user and password split at its first \<open>:\<close>.\<close>

definition netloc_parts :: "pystr \<Rightarrow> url_parts" where
  "netloc_parts netloc =
     (let (ui, have_info, hi) = py_rpartition 64 netloc;
          (h, pt) = split_hostinfo hi
      in if have_info then
           (let (us, have_pw, pw) = py_partition 58 ui in
            \<lparr>url_user = Some us, url_password = (if have_pw then Some pw else None),
             url_host = h, url_port = pt\<rparr>)
         else \<lparr>url_user = None, url_password = None, url_host = h, url_port = pt\<rparr>)"

text \<open>\<open>urlsplit\<close> on an \<open>amqp://\<close> URL: clean it, cut out the netloc, refuse unbalanced
  brackets and check bracketed hosts, then the NFKC check.\<close>

definition url_split :: "(pystr \<Rightarrow> ip_version option) \<Rightarrow> (pystr \<Rightarrow> pystr) \<Rightarrow> pystr \<Rightarrow> url_error + url_parts" where
  "url_split ipa nfkc u0 =
     (let u = url_clean u0 in
      if take 7 u = ustr ''amqp://'' then
        (let netloc = takeWhile (\<lambda>c. \<not> authority_end c) (drop 7 u) in
         if (91 \<in> set netloc) \<noteq> (93 \<in> set netloc) then Inl InvalidIPv6URL
         else (case (if 91 \<in> set netloc then check_bracketed_netloc ipa netloc else None) of
                 Some e \<Rightarrow> Inl e
               | None \<Rightarrow> (case check_netloc nfkc netloc of
                            Some e \<Rightarrow> Inl e
                          | None \<Rightarrow> Inr (netloc_parts netloc))))
      else Inl SchemeNotAmqp)"





text \<open>A URL component that survives the split unchanged: ASCII, without tab, CR, LF
  (removed by the cleaning) and brackets (taken for an IPv6 host), and without the
  characters \<open>bad\<close> that end or split its part of the URL.\<close>

definition url_safe :: "codepoint set \<Rightarrow> pystr \<Rightarrow> bool" where
  "url_safe bad s \<longleftrightarrow> (\<forall>c \<in> set s. c < 128 \<and> c \<notin> {9, 10, 13, 91, 93} \<and> c \<notin> bad)"

subsection \<open>Digits and ports\<close>

declare nat_str.simps [simp del]



lemma demo_params:
  "read_params demo_args =
     \<lparr>channel_name = PyStr (ustr ''hello''), host = PyStr (ustr ''localhost''),
      port = PyStr (ustr ''9092''), username = PyStr (ustr ''test''),
      password = PyStr (ustr ''test''), encoding = PyStr (ustr ''utf-8'')\<rparr>"
  by (simp add: read_params_def demo_args_def args_get_def args_get_default_def)


subsection \<open>Splitting the URL\<close>

lemma split_first_append: "c \<notin> set xs \<Longrightarrow> split_first c (xs @ c # ys) = Some (xs, ys)"
  by (simp add: split_first_def takeWhile_append dropWhile_append)

lemma split_last_append: "c \<notin> set ys \<Longrightarrow> split_last c (xs @ c # ys) = Some (xs, ys)"
  using split_first_append[of c "rev ys" "rev xs"] by (simp add: split_last_def)

lemma py_partition_append: "c \<notin> set xs \<Longrightarrow> py_partition c (xs @ c # ys) = (xs, True, ys)"
  by (simp add: py_partition_def split_first_append)

lemma py_rpartition_append: "c \<notin> set ys \<Longrightarrow> py_rpartition c (xs @ c # ys) = (xs, True, ys)"
  by (simp add: py_rpartition_def split_last_append)

lemma py_partition_none: "c \<notin> set xs \<Longrightarrow> py_partition c xs = (xs, False, [])"
  by (simp add: py_partition_def split_first_def)

text \<open>The fields of the URL as they reach \<open>_splitnetloc\<close>: the literal parts of the
  f-string hold no control character, so cleaning only drops the tabs, CRs and LFs of the
  fields.\<close>

definition url_fields :: "params \<Rightarrow> pystr" where
  "url_fields p = py_str (username p) @ 58 # py_str (password p) @ 64 # py_str (host p) @ 58 # py_str (port p)"

lemma url_clean_amqp_url:
  "url_clean (amqp_url p) = ustr ''amqp://'' @ filter (\<lambda>c. c \<noteq> 9 \<and> c \<noteq> 10 \<and> c \<noteq> 13) (url_fields p) @ [47]"
  by (simp add: url_clean_def amqp_url_def url_fields_def)

lemma url_split_fields:
  assumes "list_all (\<lambda>c. \<not> authority_end c) (url_fields p)"
  shows "url_split ipa nfkc (amqp_url p) =
           (let netloc = filter (\<lambda>c. c \<noteq> 9 \<and> c \<noteq> 10 \<and> c \<noteq> 13) (url_fields p) in
            if (91 \<in> set netloc) \<noteq> (93 \<in> set netloc) then Inl InvalidIPv6URL
            else (case (if 91 \<in> set netloc then check_bracketed_netloc ipa netloc else None) of
                    Some e \<Rightarrow> Inl e
                  | None \<Rightarrow> (case check_netloc nfkc netloc of
                               Some e \<Rightarrow> Inl e
                             | None \<Rightarrow> Inr (netloc_parts netloc))))"
proof -
  have "takeWhile (\<lambda>c. \<not> authority_end c) (filter (\<lambda>c. c \<noteq> 9 \<and> c \<noteq> 10 \<and> c \<noteq> 13) (url_fields p) @ [47])
          = filter (\<lambda>c. c \<noteq> 9 \<and> c \<noteq> 10 \<and> c \<noteq> 13) (url_fields p)"
    using assms by (auto simp: takeWhile_append list_all_iff authority_end_def)
  then show ?thesis by (simp add: url_split_def url_clean_amqp_url)
qed

lemma url_safe_netloc:
  "url_safe bad s \<Longrightarrow> {47, 63, 35} \<subseteq> bad \<Longrightarrow>
     list_all (\<lambda>c. c < 128 \<and> c \<notin> {9, 10, 13, 91, 93} \<and> \<not> authority_end c) s"
  unfolding url_safe_def list_all_iff authority_end_def by blast

lemma url_safe_no: "url_safe bad s \<Longrightarrow> c \<in> bad \<union> {9, 10, 13, 91, 93} \<Longrightarrow> c \<notin> set s"
  unfolding url_safe_def by blast

lemma url_split_safe:
  assumes "url_safe {58, 64, 47, 63, 35, 37} (py_str (username p))"
    and "url_safe {64, 47, 63, 35, 37} (py_str (password p))"
    and "url_safe {58, 64, 47, 63, 35} (py_str (host p))"
    and "url_safe {64, 47, 63, 35} (py_str (port p))" "py_str (port p) \<noteq> []"
  shows "url_split ipa nfkc (amqp_url p) =
           Inr \<lparr>url_user = Some (py_str (username p)), url_password = Some (py_str (password p)),
                url_host = py_str (host p), url_port = Some (py_str (port p))\<rparr>"
proof -
  define us pw h pt where "us = py_str (username p)" and "pw = py_str (password p)"
    and "h = py_str (host p)" and "pt = py_str (port p)"
  have f: "url_fields p = us @ 58 # pw @ 64 # h @ 58 # pt"
    by (simp add: url_fields_def us_def pw_def h_def pt_def)
  have safe: "list_all (\<lambda>c. c < 128 \<and> c \<notin> {9, 10, 13, 91, 93} \<and> \<not> authority_end c) (url_fields p)"
    using url_safe_netloc [OF assms(1)] url_safe_netloc [OF assms(2)] url_safe_netloc [OF assms(3)]
      url_safe_netloc [OF assms(4)]
    unfolding f us_def pw_def h_def pt_def by (simp add: authority_end_def)
  then have clean: "filter (\<lambda>c. c \<noteq> 9 \<and> c \<noteq> 10 \<and> c \<noteq> 13) (url_fields p) = url_fields p"
    by (auto simp: filter_id_conv list_all_iff)
  have nfkc: "check_netloc nfkc (url_fields p) = None"
    using safe by (simp add: check_netloc_def list_all_iff)
  have rp: "py_rpartition 64 (url_fields p) = (us @ 58 # pw, True, h @ 58 # pt)"
    using py_rpartition_append [of 64 "h @ 58 # pt" "us @ 58 # pw"]
      url_safe_no [OF assms(3), of 64] url_safe_no [OF assms(4), of 64]
    unfolding f h_def pt_def by simp
  have pp: "py_partition 58 (us @ 58 # pw) = (us, True, pw)"
    using py_partition_append url_safe_no [OF assms(1), of 58] unfolding us_def by simp
  have "91 \<notin> set (h @ 58 # pt)"
    using url_safe_no [OF assms(3), of 91] url_safe_no [OF assms(4), of 91] unfolding h_def pt_def by simp
  then have hi: "split_hostinfo (h @ 58 # pt) = (h, Some pt)"
    using url_safe_no [OF assms(3), of 58] assms(5) unfolding h_def pt_def
    by (simp add: split_hostinfo_def py_partition_append py_partition_none)
  have "91 \<notin> set (url_fields p)" "93 \<notin> set (url_fields p)" "list_all (\<lambda>c. \<not> authority_end c) (url_fields p)"
    using safe by (auto simp: list_all_iff)
  then show ?thesis
    using url_split_fields [of p ipa nfkc]
    by (simp add: clean nfkc netloc_parts_def rp pp hi flip: us_def pw_def h_def pt_def)
qed

text \<open>C17: when every field is ASCII and contains no character that \<open>urlsplit\<close> removes,
  takes for an IPv6 bracket, or that ends or splits its part of the URL, the client reads
  back exactly the user, password, host and port the arguments gave, whatever
  \<open>ip_address\<close> and NFKC do.\<close>

theorem url_split_amqp_url:
  assumes "url_safe {58, 64, 47, 63, 35, 37} (py_str (username p))"
    and "url_safe {64, 47, 63, 35, 37} (py_str (password p))"
    and "url_safe {58, 64, 47, 63, 35} (py_str (host p))"
    and "url_safe {64, 47, 63, 35} (py_str (port p))" "py_str (port p) \<noteq> []"
  shows "url_split ipa nfkc (amqp_url p) =
           Inr \<lparr>url_user = Some (py_str (username p)), url_password = Some (py_str (password p)),
                url_host = py_str (host p), url_port = Some (py_str (port p))\<rparr>"
  using url_split_safe [OF assms] .

lemma url_split_amqp_url_witness:
  "url_split (\<lambda>_. None) id (amqp_url (read_params demo_args)) =
     Inr \<lparr>url_user = Some (ustr ''test''), url_password = Some (ustr ''test''),
          url_host = ustr ''localhost'', url_port = Some (ustr ''9092'')\<rparr>"
  using url_split_amqp_url [of "read_params demo_args" "\<lambda>_. None" id]
  by (simp add: demo_params url_safe_def py_str_def)

text \<open>C18: the URL is built without quoting: with the password \<open>a/b\<close> and the other
  arguments of the \<open>__main__\<close> block, the client reads no user and no password, the user
  name as the host and part of the password as the port.\<close>

theorem password_slash_breaks_url:
  "url_split ipa nfkc (amqp_url (read_params (demo_args(ustr ''password'' \<mapsto> PyStr (ustr ''a/b''))))) =
     Inr \<lparr>url_user = None, url_password = None, url_host = ustr ''test'', url_port = Some (ustr ''a'')\<rparr>"
proof -
  have "read_params (demo_args(ustr ''password'' \<mapsto> PyStr (ustr ''a/b''))) =
          (read_params demo_args)\<lparr>password := PyStr (ustr ''a/b'')\<rparr>"
    by (simp add: read_params_def args_get_def args_get_default_def)
  then show ?thesis
    by (simp add: demo_params url_split_def url_clean_def amqp_url_def py_str_def check_netloc_def
        netloc_parts_def split_hostinfo_def py_partition_def py_rpartition_def split_last_def
        split_first_def authority_end_def)
qed

text \<open>C19: the URL is built without quoting: when a field holds \<open>[\<close> and no field holds
  \<open>]\<close> (nor a character that ends the netloc), \<open>urlsplit\<close> refuses the URL with
  \<open>ValueError("Invalid IPv6 URL")\<close>, so \<open>connect\<close> raises before any connection.\<close>

theorem bracket_breaks_url:
  assumes "list_all (\<lambda>c. \<not> authority_end c \<and> c \<noteq> 93) (url_fields p)"
    and "91 \<in> set (url_fields p)"
  shows "url_split ipa nfkc (amqp_url p) = Inl InvalidIPv6URL"
proof -
  have "list_all (\<lambda>c. \<not> authority_end c) (url_fields p)"
    using assms(1) by (simp add: list_all_iff)
  moreover have "93 \<notin> set (filter (\<lambda>c. c \<noteq> 9 \<and> c \<noteq> 10 \<and> c \<noteq> 13) (url_fields p))"
    using assms(1) by (auto simp: list_all_iff)
  ultimately show ?thesis using assms(2) url_split_fields [of p ipa nfkc] by simp
qed

lemma bracket_breaks_url_witness:
  "list_all (\<lambda>c. \<not> authority_end c \<and> c \<noteq> 93)
     (url_fields ((read_params demo_args)\<lparr>password := PyStr (ustr ''p[w'')\<rparr>))
   \<and> 91 \<in> set (url_fields ((read_params demo_args)\<lparr>password := PyStr (ustr ''p[w'')\<rparr>))
   \<and> url_split (\<lambda>_. None) id (amqp_url ((read_params demo_args)\<lparr>password := PyStr (ustr ''p[w'')\<rparr>))
       = Inl InvalidIPv6URL"
proof -
  have h: "list_all (\<lambda>c. \<not> authority_end c \<and> c \<noteq> 93)
             (url_fields ((read_params demo_args)\<lparr>password := PyStr (ustr ''p[w'')\<rparr>))"
    "91 \<in> set (url_fields ((read_params demo_args)\<lparr>password := PyStr (ustr ''p[w'')\<rparr>))"
    by (simp_all add: demo_params url_fields_def py_str_def authority_end_def)
  show ?thesis using h bracket_breaks_url [OF h, of "\<lambda>_. None" id] by blast
qed


text \<open>C20: a \<open>host\<close> argument in brackets, \<open>[h]\<close>, is read as a bracketed host: when the
  other fields are safe and \<open>h\<close> does not start with \<open>v\<close>, \<open>urlsplit\<close> accepts the URL
  exactly when \<open>ip_address(h)\<close> is an IPv6 address, and then the client reads back the
  user, the password, the host \<open>h\<close> without its brackets and the port; a bracketed IPv4
  address or a name is refused with a \<open>ValueError\<close>.\<close>

theorem bracketed_host_url:
  assumes "url_safe {58, 64, 47, 63, 35, 37} (py_str (username p))"
    and "url_safe {64, 47, 63, 35, 37} (py_str (password p))"
    and "py_str (host p) = 91 # h6 @ [93]" "url_safe {64, 47, 63, 35} h6" "take 1 h6 \<noteq> [118]"
    and "url_safe {64, 47, 63, 35} (py_str (port p))" "py_str (port p) \<noteq> []"
  shows "url_split ipa nfkc (amqp_url p) =
           (case ipa h6 of
              Some IPv6 \<Rightarrow> Inr \<lparr>url_user = Some (py_str (username p)),
                                url_password = Some (py_str (password p)),
                                url_host = h6, url_port = Some (py_str (port p))\<rparr>
            | Some IPv4 \<Rightarrow> Inl IPv4InBrackets
            | None \<Rightarrow> Inl NotIPAddress)"
proof -
  define us pw pt where "us = py_str (username p)" and "pw = py_str (password p)"
    and "pt = py_str (port p)"
  define hp where "hp = 91 # h6 @ 93 # 58 # pt"
  have f: "url_fields p = (us @ 58 # pw) @ 64 # hp"
    using assms(3) by (simp add: url_fields_def us_def pw_def pt_def hp_def)
  have mono: "list_all (\<lambda>c. c < 128 \<and> c \<notin> {9, 10, 13} \<and> \<not> authority_end c) s"
    if "list_all (\<lambda>c. c < 128 \<and> c \<notin> {9, 10, 13, 91, 93} \<and> \<not> authority_end c) s" for s
    using that by (simp add: list_all_iff)
  have safe: "list_all (\<lambda>c. c < 128 \<and> c \<notin> {9, 10, 13} \<and> \<not> authority_end c) (url_fields p)"
    using mono [OF url_safe_netloc [OF assms(1)]] mono [OF url_safe_netloc [OF assms(2)]]
      mono [OF url_safe_netloc [OF assms(4)]] mono [OF url_safe_netloc [OF assms(6)]]
    unfolding f us_def pw_def pt_def hp_def by (simp add: authority_end_def)
  then have clean: "filter (\<lambda>c. c \<noteq> 9 \<and> c \<noteq> 10 \<and> c \<noteq> 13) (url_fields p) = url_fields p"
    by (auto simp: filter_id_conv list_all_iff)
  have nfkc: "check_netloc nfkc (url_fields p) = None"
    using safe by (simp add: check_netloc_def list_all_iff)
  have no64: "64 \<notin> set hp"
    using url_safe_no [OF assms(4), of 64] url_safe_no [OF assms(6), of 64] unfolding hp_def pt_def by simp
  have rp: "py_rpartition 64 (url_fields p) = (us @ 58 # pw, True, hp)"
    unfolding f using py_rpartition_append [OF no64] .
  have no9193: "91 \<notin> set h6" "93 \<notin> set h6"
    using url_safe_no [OF assms(4), of 91] url_safe_no [OF assms(4), of 93] by simp_all
  have p91: "py_partition 91 hp = ([], True, h6 @ 93 # 58 # pt)"
    using py_partition_append [of 91 "[]"] unfolding hp_def by simp
  have p93: "py_partition 93 (h6 @ 93 # 58 # pt) = (h6, True, 58 # pt)"
    using py_partition_append [OF no9193(2)] .
  have p58: "py_partition 58 (58 # pt) = ([], True, pt)"
    using py_partition_append [of 58 "[]"] by simp
  have pp: "py_partition 58 (us @ 58 # pw) = (us, True, pw)"
    using py_partition_append url_safe_no [OF assms(1), of 58] unfolding us_def by simp
  have chk: "check_bracketed_netloc ipa (url_fields p) = check_bracketed_host ipa h6"
    by (simp add: check_bracketed_netloc_def rp p91 p93)
  have hi: "split_hostinfo hp = (h6, Some pt)"
    using assms(7) unfolding pt_def [symmetric] by (simp add: split_hostinfo_def p91 p93 p58)
  have "91 \<in> set (url_fields p)" "93 \<in> set (url_fields p)" "list_all (\<lambda>c. \<not> authority_end c) (url_fields p)"
    using safe unfolding f hp_def by (auto simp: list_all_iff)
  then show ?thesis
    using url_split_fields [of p ipa nfkc] assms(5)
    by (simp add: clean nfkc chk check_bracketed_host_def netloc_parts_def rp pp hi
        split: option.split ip_version.split flip: us_def pw_def pt_def)
qed


lemma bracketed_host_url_witness:
  "url_safe {58, 64, 47, 63, 35, 37} (py_str (username ((read_params demo_args)\<lparr>host := PyStr (ustr ''[::1]'')\<rparr>)))
   \<and> url_safe {64, 47, 63, 35, 37} (py_str (password ((read_params demo_args)\<lparr>host := PyStr (ustr ''[::1]'')\<rparr>)))
   \<and> py_str (host ((read_params demo_args)\<lparr>host := PyStr (ustr ''[::1]'')\<rparr>)) = 91 # ustr ''::1'' @ [93]
   \<and> url_split (\<lambda>h. if h = ustr ''::1'' then Some IPv6 else None) id
       (amqp_url ((read_params demo_args)\<lparr>host := PyStr (ustr ''[::1]'')\<rparr>))
     = Inr \<lparr>url_user = Some (ustr ''test''), url_password = Some (ustr ''test''),
            url_host = ustr ''::1'', url_port = Some (ustr ''9092'')\<rparr>"
proof -
  have h: "url_safe {58, 64, 47, 63, 35, 37} (py_str (username ((read_params demo_args)\<lparr>host := PyStr (ustr ''[::1]'')\<rparr>)))"
    "url_safe {64, 47, 63, 35, 37} (py_str (password ((read_params demo_args)\<lparr>host := PyStr (ustr ''[::1]'')\<rparr>)))"
    "py_str (host ((read_params demo_args)\<lparr>host := PyStr (ustr ''[::1]'')\<rparr>)) = 91 # ustr ''::1'' @ [93]"
    "url_safe {64, 47, 63, 35} (ustr ''::1'')" "take 1 (ustr ''::1'') \<noteq> [118]"
    "url_safe {64, 47, 63, 35} (py_str (port ((read_params demo_args)\<lparr>host := PyStr (ustr ''[::1]'')\<rparr>)))"
    "py_str (port ((read_params demo_args)\<lparr>host := PyStr (ustr ''[::1]'')\<rparr>)) \<noteq> []"
    by (simp_all add: demo_params url_safe_def py_str_def)
  show ?thesis using h bracketed_host_url [OF h, of "\<lambda>h. if h = ustr ''::1'' then Some IPv6 else None" id]
    by (simp add: demo_params py_str_def)
qed


subsection \<open>Integer ports at the boundaries\<close>





end
