(* ===== verification/Sink.thy ===== *)
theory Sink
  imports Prelude
begin

text \<open>
  The Event Sink.  The callback builds the event \<open>{"body": text}\<close> (line 34 of
  \<open>src/extensions/eda/plugins/event_source/amq.py\<close>) and awaits \<open>queue.put\<close> on it.
  Two sinks exist: the host's \<open>asyncio.Queue\<close> (outside the repository; modelled from
  the specification and the standard library: a FIFO list, a \<open>maxsize\<close> where \<open>0\<close> or
  less means unbounded, and the count of unfinished tasks), and \<open>MockQueue\<close> of the
  module's \<open>__main__\<close> block (lines 59--64), whose \<open>put\<close> prints the event.  The
  callback only needs a \<open>put\<close> function; \<open>sink_log put view\<close> says that \<open>view\<close>
  sees \<open>put\<close> append its event, which both sinks satisfy.
\<close>

type_synonym event = "(pystr \<times> pystr) list"

definition mk_event :: "pystr \<Rightarrow> event" where
  "mk_event s = [(ustr ''body'', s)]"

subsection \<open>\<open>asyncio.Queue\<close>\<close>

record 'a aqueue =
  aq_items :: "'a list"
  aq_maxsize :: int
  aq_unfinished :: nat

datatype queue_error = QueueEmpty | TaskDoneTooMany

definition aq_new :: "int \<Rightarrow> 'a aqueue" where
  "aq_new m = \<lparr>aq_items = [], aq_maxsize = m, aq_unfinished = 0\<rparr>"

text \<open>\<open>Queue._put\<close> with the bookkeeping of \<open>put_nowait\<close>: append, one more unfinished
  task.  \<open>await put(x)\<close> waits while the queue is full and then does this.\<close>

definition aq_put :: "'a aqueue \<Rightarrow> 'a \<Rightarrow> 'a aqueue" where
  "aq_put q x = q\<lparr>aq_items := aq_items q @ [x], aq_unfinished := Suc (aq_unfinished q)\<rparr>"

definition aq_get_nowait :: "'a aqueue \<Rightarrow> queue_error + ('a \<times> 'a aqueue)" where
  "aq_get_nowait q =
     (case aq_items q of [] \<Rightarrow> Inl QueueEmpty | x # xs \<Rightarrow> Inr (x, q\<lparr>aq_items := xs\<rparr>))"

definition aq_task_done :: "'a aqueue \<Rightarrow> queue_error + 'a aqueue" where
  "aq_task_done q =
     (if aq_unfinished q = 0 then Inl TaskDoneTooMany
      else Inr (q\<lparr>aq_unfinished := aq_unfinished q - 1\<rparr>))"

subsection \<open>\<open>MockQueue\<close>\<close>

text \<open>The mock's only state is what it has printed to standard output.\<close>

record mock_queue =
  stdout :: "event list"

definition mock_put :: "mock_queue \<Rightarrow> event \<Rightarrow> mock_queue" where
  "mock_put m e = m\<lparr>stdout := stdout m @ [e]\<rparr>"

subsection \<open>The interface the callback relies on\<close>

definition sink_log :: "('q \<Rightarrow> event \<Rightarrow> 'q) \<Rightarrow> ('q \<Rightarrow> event list) \<Rightarrow> bool" where
  "sink_log put view \<longleftrightarrow> (\<forall>q e. view (put q e) = view q @ [e])"

text \<open>The queue invariant: every queued item is an unfinished task: \<open>put\<close> and \<open>get\<close> keep this.\<close>

definition aq_inv :: "'a aqueue \<Rightarrow> bool" where
  "aq_inv q \<longleftrightarrow> length (aq_items q) \<le> aq_unfinished q"

subsection \<open>Lemmas\<close>

lemma sink_log_aqueue: "sink_log aq_put aq_items"
  by (simp add: sink_log_def aq_put_def)

lemma sink_log_mock: "sink_log mock_put stdout"
  by (simp add: sink_log_def mock_put_def)

lemma sink_log_fold: "sink_log put view \<Longrightarrow> view (fold (\<lambda>e q. put q e) es q) = view q @ es"
  by (induction es arbitrary: q) (simp_all add: sink_log_def)

lemma aq_inv_new: "aq_inv (aq_new m)"
  by (simp add: aq_inv_def aq_new_def)

lemma aq_inv_put: "aq_inv q \<Longrightarrow> aq_inv (aq_put q x)"
  by (simp add: aq_inv_def aq_put_def)

lemma aq_inv_get: "aq_inv q \<Longrightarrow> aq_get_nowait q = Inr (x, q') \<Longrightarrow> aq_inv q'"
  by (auto simp: aq_inv_def aq_get_nowait_def split: list.splits)

end
