(* ===== verification/Repr.thy ===== *)
theory Repr
  imports Prelude
begin

text \<open>
  What the callback prints for the body: \<open>print("Message body is: %r" % message.body)\<close>
  (line 33 of \<open>src/extensions/eda/plugins/event_source/amq.py\<close>).  \<open>%r\<close> of a \<open>bytes\<close>
  object is CPython's \<open>PyBytes_Repr\<close> with smart quotes: the literal is quoted with \<open>"\<close>
  when the body contains \<open>'\<close> but no \<open>"\<close>, and with \<open>'\<close> otherwise; the quote and the
  backslash are escaped, tab, newline and carriage return print as \<open>\t\<close>, \<open>\n\<close>, \<open>\r\<close>,
  other bytes outside the printable ASCII range as \<open>\xhh\<close> with lower-case hex digits
  (\<open>Py_hexdigits\<close>), and the rest as themselves.  The reference reading of a bytes
  literal (\<open>bytes_unrepr\<close>, the part of Python's literal syntax that a repr can use) shows
  that the printed line determines the body.
\<close>

definition py_hexdigits :: pystr where
  "py_hexdigits = ustr ''0123456789abcdef''"

definition repr_byte :: "codepoint \<Rightarrow> byte \<Rightarrow> pystr" where
  "repr_byte quote b =
     (let c = unat b in
      if c = quote \<or> c = 92 then [92, c]
      else if c = 9 then [92, 116]
      else if c = 10 then [92, 110]
      else if c = 13 then [92, 114]
      else if c < 32 \<or> 0x7f \<le> c then
        [92, 120, py_hexdigits ! unat (drop_bit 4 (b AND 0xF0)), py_hexdigits ! unat (b AND 0xF)]
      else [c])"

definition bytes_repr :: "bytes \<Rightarrow> pystr" where
  "bytes_repr bs =
     (let squotes = 39 \<in> set (map unat bs);
          dquotes = 34 \<in> set (map unat bs);
          quote = (if squotes \<and> \<not> dquotes then 34 else 39)
      in 98 # quote # concat (map (repr_byte quote) bs) @ [quote])"

subsection \<open>Reading a bytes literal back\<close>

definition hex_value :: "codepoint \<Rightarrow> nat option" where
  "hex_value c =
     (if 48 \<le> c \<and> c \<le> 57 then Some (c - 48)
      else if 97 \<le> c \<and> c \<le> 102 then Some (c - 87)
      else if 65 \<le> c \<and> c \<le> 70 then Some (c - 55)
      else None)"

fun unescape :: "codepoint \<Rightarrow> pystr \<Rightarrow> bytes option" where
  "unescape q [] = Some []"
| "unescape q (c # cs) =
     (if c = 92 then
        (case cs of
           [] \<Rightarrow> None
         | e # cs' \<Rightarrow>
             if e = 120 then
               (case cs' of
                  h # l # cs'' \<Rightarrow>
                    (case (hex_value h, hex_value l) of
                       (Some x, Some y) \<Rightarrow> map_option (Cons (byte_of (16 * x + y))) (unescape q cs'')
                     | _ \<Rightarrow> None)
                | _ \<Rightarrow> None)
             else if e = 116 then map_option (Cons 9) (unescape q cs')
             else if e = 110 then map_option (Cons 10) (unescape q cs')
             else if e = 114 then map_option (Cons 13) (unescape q cs')
             else if e = 92 \<or> e = 39 \<or> e = 34 then map_option (Cons (byte_of e)) (unescape q cs')
             else None)
      else if c = q \<or> c < 32 \<or> 127 \<le> c then None
      else map_option (Cons (byte_of c)) (unescape q cs))"

definition bytes_unrepr :: "pystr \<Rightarrow> bytes option" where
  "bytes_unrepr s =
     (case s of
        p # q # rest \<Rightarrow>
          if p = 98 \<and> (q = 39 \<or> q = 34) \<and> rest \<noteq> [] \<and> last rest = q
          then unescape q (butlast rest) else None
      | _ \<Rightarrow> None)"

subsection \<open>Lemmas\<close>

lemma unat_low_nibble: "unat ((b::byte) AND 0xF) = unat b mod 16"
proof -
  have "(0xF::byte) = mask 4" by (simp add: mask_eq_exp_minus_1)
  then have "(b AND 0xF) = take_bit 4 b" by (simp only: take_bit_eq_mask)
  then have "unat (b AND 0xF) = take_bit 4 (unat b)" by (simp only: unsigned_take_bit_eq)
  then show ?thesis by (simp add: take_bit_eq_mod)
qed

lemma unat_high_nibble: "unat (drop_bit 4 ((b::byte) AND 0xF0)) = unat b div 16"
proof -
  have m: "(0xF::byte) = mask 4" by (simp add: mask_eq_exp_minus_1)
  have "drop_bit 4 ((b::byte) AND 0xF0) = drop_bit 4 b AND drop_bit 4 0xF0"
    by (rule drop_bit_and)
  also have "drop_bit 4 (0xF0::byte) = 0xF" by simp
  also have "drop_bit 4 b AND 0xF = take_bit 4 (drop_bit 4 b)" by (simp only: m take_bit_eq_mask)
  finally have "unat (drop_bit 4 ((b::byte) AND 0xF0)) = take_bit 4 (drop_bit 4 (unat b))"
    by (simp only: unsigned_take_bit_eq unat_drop_bit_eq)
  moreover have "unat b div 16 < 16" using unat_byte_less[of b] by simp
  ultimately show ?thesis by (simp add: take_bit_eq_mod drop_bit_eq_div)
qed

lemma hex_value_digit: "d < 16 \<Longrightarrow> hex_value (py_hexdigits ! d) = Some d"
  by (auto simp: less_Suc_eq numeral_eq_Suc py_hexdigits_def hex_value_def)

lemma hexdigit_printable: "d < 16 \<Longrightarrow> 48 \<le> py_hexdigits ! d \<and> py_hexdigits ! d \<le> 102"
  by (auto simp: less_Suc_eq numeral_eq_Suc py_hexdigits_def)

lemma byte_of_numeral: "byte_of (numeral n) = numeral n"
  by (simp add: byte_of_def)

lemma repr_byte_unat:
  "repr_byte quote b =
     (let c = unat b in
      if c = quote \<or> c = 92 then [92, c]
      else if c = 9 then [92, 116]
      else if c = 10 then [92, 110]
      else if c = 13 then [92, 114]
      else if c < 32 \<or> 0x7f \<le> c then [92, 120, py_hexdigits ! (c div 16), py_hexdigits ! (c mod 16)]
      else [c])"
  unfolding repr_byte_def unat_low_nibble unat_high_nibble Let_def ..

lemma unescape_repr_byte_of:
  assumes "q = 39 \<or> q = 34" "c < 256"
  shows "unescape q (repr_byte q (byte_of c) @ rest) = map_option (Cons (byte_of c)) (unescape q rest)"
proof -
  have hx: "hex_value (py_hexdigits ! (c div 16)) = Some (c div 16)"
    "hex_value (py_hexdigits ! (c mod 16)) = Some (c mod 16)"
    using assms(2) by (simp_all add: hex_value_digit)
  have "byte_of (16 * (c div 16) + c mod 16) = byte_of c" by simp
  then show ?thesis using assms
    by (auto simp: repr_byte_unat Let_def hx unat_byte_of byte_of_numeral)
qed

lemma unescape_repr_byte:
  "q = 39 \<or> q = 34 \<Longrightarrow> unescape q (repr_byte q b @ rest) = map_option (Cons b) (unescape q rest)"
  using unescape_repr_byte_of [of q "unat b" rest] by (simp add: byte_of_unat unat_byte_less)


lemma unescape_repr_bytes:
  "q = 39 \<or> q = 34 \<Longrightarrow> unescape q (concat (map (repr_byte q) bs)) = Some bs"
  by (induction bs) (simp_all add: unescape_repr_byte)

lemma bytes_repr_quote: "bytes_repr bs = 98 # q # concat (map (repr_byte q) bs) @ [q] \<Longrightarrow> q = 39 \<or> q = 34"
  by (simp add: bytes_repr_def Let_def split: if_splits)

lemma repr_byte_printable:
  assumes "q = 39 \<or> q = 34" "c \<in> set (repr_byte q b)"
  shows "32 \<le> c \<and> c < 127"
proof -
  have "unat b div 16 < 16" "unat b mod 16 < 16" using unat_byte_less[of b] by simp_all
  then have "48 \<le> py_hexdigits ! (unat b div 16) \<and> py_hexdigits ! (unat b div 16) \<le> 102"
    "48 \<le> py_hexdigits ! (unat b mod 16) \<and> py_hexdigits ! (unat b mod 16) \<le> 102"
    by (simp_all add: hexdigit_printable)
  then show ?thesis using assms by (auto simp: repr_byte_unat Let_def split: if_splits)
qed

text \<open>C23: the printed body determines the body: reading the repr back as a bytes literal
  gives the bytes the callback received, whatever they are.\<close>

theorem bytes_repr_roundtrip: "bytes_unrepr (bytes_repr bs) = Some bs"
proof -
  obtain q where q: "bytes_repr bs = 98 # q # concat (map (repr_byte q) bs) @ [q]"
    by (simp add: bytes_repr_def Let_def)
  have "q = 39 \<or> q = 34" using bytes_repr_quote[OF q] .
  then show ?thesis by (simp add: q bytes_unrepr_def unescape_repr_bytes)
qed

text \<open>C24: the printed body is printable ASCII: every character of the repr lies in
  \<open>0x20 .. 0x7E\<close>, so a body never writes control characters to the terminal.\<close>

theorem bytes_repr_printable: "c \<in> set (bytes_repr bs) \<Longrightarrow> 32 \<le> c \<and> c < 127"
proof -
  obtain q where q: "bytes_repr bs = 98 # q # concat (map (repr_byte q) bs) @ [q]"
    by (simp add: bytes_repr_def Let_def)
  have "q = 39 \<or> q = 34" using bytes_repr_quote[OF q] .
  moreover assume "c \<in> set (bytes_repr bs)"
  ultimately show ?thesis using repr_byte_printable by (auto simp: q)
qed

lemma bytes_repr_printable_witness:
  "bytes_repr [0xFF, 10] = [98, 39, 92, 120, 102, 102, 92, 110, 39]
   \<and> 32 \<le> (92::nat) \<and> (92::nat) < 127"
proof -
  have r: "bytes_repr [0xFF, 10] = [98, 39, 92, 120, 102, 102, 92, 110, 39]"
    by (simp add: bytes_repr_def repr_byte_unat py_hexdigits_def)
  have "(92::nat) \<in> set (bytes_repr [0xFF, 10])" by (simp add: r)
  then show ?thesis using r bytes_repr_printable by blast
qed

end
