(* ===== verification/Runner.thy ===== *)
theory Runner
  imports Codec Config Sink Repr
begin

text \<open>
  The Adapter Runner: \<open>main\<close> and its callback \<open>on_message\<close>
  (\<open>src/extensions/eda/plugins/event_source/amq.py\<close>, lines 23--53).
  \<^item> \<open>on_message\<close> prints the message and its body, decodes the body with the
    \<open>encoding\<close> captured from \<open>main\<close>, and puts \<open>{"body": text}\<close> into the sink;
    a decoding error escapes the callback (the code does not catch it).
  \<^item> \<open>main_start\<close> is \<open>main\<close> up to its suspension: read the arguments, build the URL,
    \<open>connect\<close> (outside the \<open>async with\<close>), then inside \<open>async with connection\<close> open
    a channel, declare the queue and register the consumer with \<open>no_ack=True\<close>.  An
    exception inside the \<open>async with\<close> block closes the connection on the way out.
  \<^item> After that \<open>main\<close> awaits \<open>asyncio.Future()\<close>, which nothing ever completes.
    \<open>main_step\<close> is one event while suspended: a delivery (the broker client runs the
    callback; an exception from it is logged and dropped, as the specification says of
    the client), a cancellation (the \<open>await\<close> raises \<open>CancelledError\<close>, the
    \<open>async with\<close> closes the connection), or the loss of the connection (the client
    stops delivering; the future stays pending).
  The broker client is an environment: the record \<open>broker\<close> says which of its calls
  fail and with what cause.  The adapter state counts what \<open>main\<close> did to the client
  (URLs passed to \<open>connect\<close>, sessions, channels, queue declarations, consumers and
  releases of the connection), so that the resource properties can be stated.
\<close>

subsection \<open>Messages, diagnostics and the callback\<close>

record msg =
  body :: bytes
  delivery_tag :: nat

text \<open>What the adapter writes: the two \<open>print\<close> calls of the callback, and the
  client's log entry for an exception escaping the callback.\<close>

datatype diag = DReceived msg | DBody bytes | DCallbackError decode_error

text \<open>The second line the callback prints, \<open>"Message body is: %r" % message.body\<close>.\<close>

definition body_line :: "bytes \<Rightarrow> pystr" where
  "body_line b = ustr ''Message body is: '' @ bytes_repr b"

definition on_message ::
  "('q \<Rightarrow> event \<Rightarrow> 'q) \<Rightarrow> registry \<Rightarrow> pyval \<Rightarrow> msg \<Rightarrow> 'q \<Rightarrow> diag list \<times> (decode_error + 'q)" where
  "on_message put reg e m q =
     ([DReceived m, DBody (body m)],
      case bytes_decode reg e (body m) of
        Inl err \<Rightarrow> Inl err
      | Inr text \<Rightarrow> Inr (put q (mk_event text)))"

subsection \<open>The broker client as an environment\<close>

datatype broker_error = BrokerError nat

record broker =
  br_connect :: "pystr \<Rightarrow> broker_error option"
  br_channel :: "broker_error option"
  br_declare :: "pyval \<Rightarrow> broker_error option"
  br_consume :: "broker_error option"

datatype main_error =
    ConnectFailed broker_error
  | ChannelFailed broker_error
  | DeclareFailed broker_error
  | ConsumeFailed broker_error

datatype outcome = Raised main_error | Cancelled

datatype phase = Consuming | Lost | Finished outcome

record 'q adapter =
  phase :: phase
  sink :: 'q
  diags :: "diag list"
  enc :: pyval
  codecs :: registry
  connect_urls :: "pystr list"
  sessions :: nat
  channels :: nat
  declared :: "pyval list"
  consumers :: nat
  releases :: nat

subsection \<open>\<open>main\<close> up to its suspension\<close>

text \<open>An exception inside \<open>async with connection\<close>: \<open>__aexit__\<close> closes the connection
  and the exception propagates out of \<open>main\<close>.\<close>

definition abort_session :: "'q adapter \<Rightarrow> main_error \<Rightarrow> 'q adapter" where
  "abort_session s err = s\<lparr>phase := Finished (Raised err), releases := Suc (releases s)\<rparr>"

definition main_start :: "broker \<Rightarrow> registry \<Rightarrow> args \<Rightarrow> 'q \<Rightarrow> 'q adapter" where
  "main_start br reg a q0 =
     (let p = read_params a;
          url = amqp_url p;
          s0 = \<lparr>phase = Consuming, sink = q0, diags = [], enc = encoding p, codecs = reg,
                connect_urls = [url], sessions = 0, channels = 0, declared = [],
                consumers = 0, releases = 0\<rparr>
      in case br_connect br url of
           Some err \<Rightarrow> s0\<lparr>phase := Finished (Raised (ConnectFailed err))\<rparr>
         | None \<Rightarrow>
             (let s1 = s0\<lparr>sessions := 1\<rparr> in
              case br_channel br of
                Some err \<Rightarrow> abort_session s1 (ChannelFailed err)
              | None \<Rightarrow>
                  (let s2 = s1\<lparr>channels := 1\<rparr> in
                   case br_declare br (channel_name p) of
                     Some err \<Rightarrow> abort_session s2 (DeclareFailed err)
                   | None \<Rightarrow>
                       (let s3 = s2\<lparr>declared := [channel_name p]\<rparr> in
                        case br_consume br of
                          Some err \<Rightarrow> abort_session s3 (ConsumeFailed err)
                        | None \<Rightarrow> s3\<lparr>consumers := 1\<rparr>))))"

subsection \<open>While suspended on the future\<close>

datatype input = Deliver msg | Cancel | ConnectionLost

text \<open>The client runs the registered callback on a delivery; an exception escaping it
  is logged, the message is gone (\<open>no_ack=True\<close>) and consumption goes on.\<close>

definition deliver :: "('q \<Rightarrow> event \<Rightarrow> 'q) \<Rightarrow> msg \<Rightarrow> 'q adapter \<Rightarrow> 'q adapter" where
  "deliver put m s =
     (case on_message put (codecs s) (enc s) m (sink s) of
        (out, Inl err) \<Rightarrow> s\<lparr>diags := diags s @ out @ [DCallbackError err]\<rparr>
      | (out, Inr q) \<Rightarrow> s\<lparr>sink := q, diags := diags s @ out\<rparr>)"

fun main_step :: "('q \<Rightarrow> event \<Rightarrow> 'q) \<Rightarrow> 'q adapter \<Rightarrow> input \<Rightarrow> 'q adapter" where
  "main_step put s (Deliver m) = (if phase s = Consuming then deliver put m s else s)"
| "main_step put s Cancel =
     (case phase s of
        Finished _ \<Rightarrow> s
      | _ \<Rightarrow> s\<lparr>phase := Finished Cancelled, releases := Suc (releases s)\<rparr>)"
| "main_step put s ConnectionLost = (if phase s = Consuming then s\<lparr>phase := Lost\<rparr> else s)"

fun main_run :: "('q \<Rightarrow> event \<Rightarrow> 'q) \<Rightarrow> 'q adapter \<Rightarrow> input list \<Rightarrow> 'q adapter" where
  "main_run put s [] = s"
| "main_run put s (i # is) = main_run put (main_step put s i) is"

text \<open>Every state \<open>main\<close> can be in: after its start, and after any events.\<close>

inductive reachable :: "('q \<Rightarrow> event \<Rightarrow> 'q) \<Rightarrow> 'q adapter \<Rightarrow> bool" for put where
  start: "reachable put (main_start br reg a q0)"
| step: "reachable put s \<Longrightarrow> reachable put (main_step put s i)"

subsection \<open>What the properties are stated with\<close>

text \<open>The resource invariant: one connection attempt; at most one session, channel and
  consumer, each inside the one before; while \<open>main\<close> is suspended the consumer is
  registered and nothing has been released; once \<open>main\<close> has finished, every session
  it opened has been released.\<close>

definition adapter_inv :: "'q adapter \<Rightarrow> bool" where
  "adapter_inv s \<longleftrightarrow>
     length (connect_urls s) = 1 \<and> sessions s \<le> 1 \<and> channels s \<le> sessions s
     \<and> consumers s \<le> channels s
     \<and> (case phase s of
          Finished _ \<Rightarrow> releases s = sessions s
        | _ \<Rightarrow> releases s = 0 \<and> consumers s = 1)"

text \<open>What the callback makes of one message, the events a sequence of messages should
  produce, and the diagnostics each message produces.\<close>

definition decode_result :: "registry \<Rightarrow> pyval \<Rightarrow> msg \<Rightarrow> decode_error + pystr" where
  "decode_result reg e m = bytes_decode reg e (body m)"

definition decoded_events :: "registry \<Rightarrow> pyval \<Rightarrow> msg list \<Rightarrow> event list" where
  "decoded_events reg e ms =
     concat (map (\<lambda>m. case decode_result reg e m of Inl _ \<Rightarrow> [] | Inr t \<Rightarrow> [mk_event t]) ms)"

definition msg_diags :: "registry \<Rightarrow> pyval \<Rightarrow> msg \<Rightarrow> diag list" where
  "msg_diags reg e m =
     [DReceived m, DBody (body m)]
     @ (case decode_result reg e m of Inl err \<Rightarrow> [DCallbackError err] | Inr _ \<Rightarrow> [])"

text \<open>The host's side: the host reads the \<open>asyncio.Queue\<close> (\<open>get_nowait\<close>; when the
  queue is empty the host waits, which changes nothing) while the broker delivers.\<close>

datatype sys_input = AdapterIn input | HostGet

fun sys_step ::
  "event aqueue adapter \<times> event list \<Rightarrow> sys_input \<Rightarrow> event aqueue adapter \<times> event list" where
  "sys_step (s, seen) (AdapterIn i) = (main_step aq_put s i, seen)"
| "sys_step (s, seen) HostGet =
     (case aq_get_nowait (sink s) of
        Inl _ \<Rightarrow> (s, seen)
      | Inr (e, q) \<Rightarrow> (s\<lparr>sink := q\<rparr>, seen @ [e]))"

fun sys_run ::
  "event aqueue adapter \<times> event list \<Rightarrow> sys_input list \<Rightarrow> event aqueue adapter \<times> event list" where
  "sys_run st [] = st"
| "sys_run st (i # is) = sys_run (sys_step st i) is"

definition deliveries :: "sys_input list \<Rightarrow> msg list" where
  "deliveries is = concat (map (\<lambda>i. case i of AdapterIn (Deliver m) \<Rightarrow> [m] | _ \<Rightarrow> []) is)"

text \<open>The shape of event the host expects: the one-key dictionary \<open>{"body": text}\<close>
  whose text is a Python \<open>str\<close> of Unicode scalar values.\<close>

definition event_ok :: "event \<Rightarrow> bool" where
  "event_ok e \<longleftrightarrow> (case e of [(k, t)] \<Rightarrow> k = ustr ''body'' \<and> list_all is_scalar t | _ \<Rightarrow> False)"

definition no_stop :: "sys_input list \<Rightarrow> bool" where
  "no_stop is \<longleftrightarrow> (\<forall>i \<in> set is. i \<noteq> AdapterIn Cancel \<and> i \<noteq> AdapterIn ConnectionLost)"

subsection \<open>A concrete environment\<close>

text \<open>A broker that accepts everything, brokers that refuse the connection or the
  channel, an empty codec registry, and two messages: \<open>b"ping"\<close> and the byte
  \<open>0xFF\<close>, which is not UTF-8 (the two scenarios of the specification).\<close>

definition ok_broker :: broker where
  "ok_broker = \<lparr>br_connect = (\<lambda>_. None), br_channel = None, br_declare = (\<lambda>_. None), br_consume = None\<rparr>"

definition fail_connect_broker :: broker where
  "fail_connect_broker = ok_broker\<lparr>br_connect := (\<lambda>_. Some (BrokerError 111))\<rparr>"

definition fail_channel_broker :: broker where
  "fail_channel_broker = ok_broker\<lparr>br_channel := Some (BrokerError 403)\<rparr>"

definition no_codecs :: registry where
  "no_codecs = (\<lambda>_. None)"

definition ping_msg :: msg where
  "ping_msg = \<lparr>body = bstr ''ping'', delivery_tag = 1\<rparr>"

definition bad_msg :: msg where
  "bad_msg = \<lparr>body = [0xFF], delivery_tag = 2\<rparr>"

definition empty_msg :: msg where
  "empty_msg = \<lparr>body = [], delivery_tag = 3\<rparr>"

text \<open>The arguments of the \<open>__main__\<close> block with an \<open>encoding\<close> no codec knows.\<close>

definition klingon_args :: args where
  "klingon_args = demo_args(ustr ''encoding'' \<mapsto> PyStr (ustr ''klingon''))"

subsection \<open>Lemmas\<close>

lemma deliver_cases:
  "deliver put m s =
     (case decode_result (codecs s) (enc s) m of
        Inl err \<Rightarrow> s\<lparr>diags := diags s @ msg_diags (codecs s) (enc s) m\<rparr>
      | Inr t \<Rightarrow> s\<lparr>sink := put (sink s) (mk_event t), diags := diags s @ msg_diags (codecs s) (enc s) m\<rparr>)"
  by (simp add: deliver_def on_message_def msg_diags_def decode_result_def split: sum.split)

lemma deliver_frame [simp]:
  "phase (deliver put m s) = phase s" "enc (deliver put m s) = enc s"
  "codecs (deliver put m s) = codecs s" "releases (deliver put m s) = releases s"
  "sessions (deliver put m s) = sessions s" "channels (deliver put m s) = channels s"
  "consumers (deliver put m s) = consumers s" "connect_urls (deliver put m s) = connect_urls s"
  "declared (deliver put m s) = declared s"
  by (simp_all add: deliver_cases split: sum.split)

lemma main_start_frame [simp]:
  "enc (main_start br reg a q0) = encoding (read_params a)"
  "codecs (main_start br reg a q0) = reg"
  "sink (main_start br reg a q0) = q0"
  "diags (main_start br reg a q0) = []"
  "connect_urls (main_start br reg a q0) = [amqp_url (read_params a)]"
  by (simp_all add: main_start_def Let_def abort_session_def split: option.split)

lemma demo_start:
  "main_start ok_broker reg demo_args q0 =
     \<lparr>phase = Consuming, sink = q0, diags = [], enc = PyStr (ustr ''utf-8''), codecs = reg,
      connect_urls = [amqp_url (read_params demo_args)], sessions = 1, channels = 1,
      declared = [PyStr (ustr ''hello'')], consumers = 1, releases = 0\<rparr>"
  by (simp add: main_start_def Let_def ok_broker_def demo_params)

lemma main_run_append: "main_run put s (xs @ ys) = main_run put (main_run put s xs) ys"
  by (induction xs arbitrary: s) auto

lemma main_run_deliver_fold:
  "phase s = Consuming \<Longrightarrow> sink (main_run put s (map Deliver ms))
     = fold (\<lambda>e q. put q e) (decoded_events (codecs s) (enc s) ms) (sink s)"
proof (induction ms arbitrary: s)
  case Nil
  then show ?case by (simp add: decoded_events_def)
next
  case (Cons m ms)
  have "phase (deliver put m s) = Consuming" using Cons.prems by simp
  note IH = Cons.IH[OF this]
  show ?case using IH Cons.prems
    by (simp add: deliver_cases decoded_events_def split: sum.split)
qed

lemma main_run_deliver_diags:
  "phase s = Consuming \<Longrightarrow> phase (main_run put s (map Deliver ms)) = Consuming
     \<and> diags (main_run put s (map Deliver ms)) = diags s @ concat (map (msg_diags (codecs s) (enc s)) ms)"
proof (induction ms arbitrary: s)
  case Nil
  then show ?case by simp
next
  case (Cons m ms)
  have "phase (deliver put m s) = Consuming" using Cons.prems by simp
  note IH = Cons.IH[OF this]
  have "diags (deliver put m s) = diags s @ msg_diags (codecs s) (enc s) m"
    by (simp add: deliver_cases split: sum.split)
  then show ?case using IH Cons.prems by simp
qed

lemma main_run_deliver_sink:
  assumes "sink_log put view" "phase s = Consuming"
  shows "view (sink (main_run put s (map Deliver ms)))
           = view (sink s) @ decoded_events (codecs s) (enc s) ms"
  using main_run_deliver_fold[OF assms(2)] sink_log_fold[OF assms(1)] by simp

text \<open>C3: a delivery never ends consumption: whatever each message decodes to, the
  adapter is still consuming afterwards, each message leaves exactly its two printed lines
  plus, when its body does not decode, one logged decoding error, and the sink receives, in
  order, the events of exactly the messages that decode.\<close>

theorem deliveries_keep_consuming:
  assumes "sink_log put view" "phase s = Consuming"
  shows "phase (main_run put s (map Deliver ms)) = Consuming
       \<and> diags (main_run put s (map Deliver ms))
           = diags s @ concat (map (msg_diags (codecs s) (enc s)) ms)
       \<and> view (sink (main_run put s (map Deliver ms)))
           = view (sink s) @ decoded_events (codecs s) (enc s) ms"
  using main_run_deliver_diags[OF assms(2)] main_run_deliver_sink[OF assms] by blast

lemma deliveries_keep_consuming_witness:
  "sink_log aq_put aq_items
   \<and> phase (main_start ok_broker no_codecs demo_args (aq_new 0 :: event aqueue)) = Consuming
   \<and> phase (main_run aq_put (main_start ok_broker no_codecs demo_args (aq_new 0 :: event aqueue))
              (map Deliver [bad_msg, ping_msg])) = Consuming
   \<and> aq_items (sink (main_run aq_put (main_start ok_broker no_codecs demo_args (aq_new 0 :: event aqueue))
              (map Deliver [bad_msg, ping_msg]))) = [mk_event (ustr ''ping'')]"
proof -
  have h: "sink_log aq_put aq_items"
    "phase (main_start ok_broker no_codecs demo_args (aq_new 0 :: event aqueue)) = Consuming"
    by (simp_all add: sink_log_aqueue demo_start)
  have d: "decoded_events no_codecs (PyStr (ustr ''utf-8'')) [bad_msg, ping_msg] = [mk_event (ustr ''ping'')]"
    by (simp add: decoded_events_def decode_result_def utf8_fast_path [simplified] ping_msg_def
        bad_msg_def utf8_decode_def utf8_next_def)
  show ?thesis using h deliveries_keep_consuming [OF h, of "[bad_msg, ping_msg]"]
    by (simp add: d [simplified] demo_start aq_new_def)
qed

lemma main_step_frame [simp]:
  "codecs (main_step put s i) = codecs s" "enc (main_step put s i) = enc s"
  by (cases i; simp split: phase.split)+

lemma main_step_events_ok:
  assumes "sink_log put view" "registry_ok (codecs s)" "list_all event_ok (view (sink s))"
  shows "list_all event_ok (view (sink (main_step put s i)))"
proof (cases i)
  case (Deliver m)
  have "decode_result (codecs s) (enc s) m = Inr t \<Longrightarrow> list_all is_scalar t" for t
    using bytes_decode_scalar [OF assms(2)] by (simp add: decode_result_def)
  then show ?thesis using assms Deliver
    by (auto simp: deliver_cases sink_log_def event_ok_def mk_event_def split: sum.split)
qed (use assms in \<open>auto split: phase.split\<close>)

lemma main_run_events_ok:
  "sink_log put view \<Longrightarrow> registry_ok (codecs s) \<Longrightarrow> list_all event_ok (view (sink s))
   \<Longrightarrow> list_all event_ok (view (sink (main_run put s is)))"
  by (induction "is" arbitrary: s) (simp_all add: main_step_events_ok)

lemma main_step_finished: "phase s = Finished oc \<Longrightarrow> main_step put s i = s"
  by (cases i) auto

lemma main_run_finished: "phase s = Finished oc \<Longrightarrow> main_run put s is = s"
  by (induction "is") (auto simp: main_step_finished)

lemma main_run_lost: "phase s = Lost \<Longrightarrow> Cancel \<notin> set is \<Longrightarrow> main_run put s is = s"
proof (induction "is")
  case Nil
  then show ?case by simp
next
  case (Cons i "is")
  then have "main_step put s i = s" by (cases i) auto
  with Cons show ?case by simp
qed

lemma main_run_no_cancel:
  "phase s \<in> {Consuming, Lost} \<Longrightarrow> Cancel \<notin> set is
   \<Longrightarrow> phase (main_run put s is) \<in> {Consuming, Lost} \<and> releases (main_run put s is) = releases s"
proof (induction "is" arbitrary: s)
  case (Cons i "is")
  then have "phase (main_step put s i) \<in> {Consuming, Lost} \<and> releases (main_step put s i) = releases s"
    by (cases i) auto
  with Cons show ?case by simp
qed simp

text \<open>C9: the loss of the connection freezes \<open>main\<close> without ending it: from a consuming
  state, when the connection is lost at any point of a run without cancellation, \<open>main\<close>
  is left in the lost phase, nothing after the loss changes its state (no further message
  reaches the sink or the log), and the connection is not released, so the loss never
  reaches the host (the pending \<open>asyncio.Future()\<close> is never completed).\<close>

theorem connection_loss_freezes_main:
  assumes "phase s = Consuming" "Cancel \<notin> set (xs @ ys)"
  shows "phase (main_run put s (xs @ ConnectionLost # ys)) = Lost
       \<and> main_run put s (xs @ ConnectionLost # ys) = main_run put s (xs @ [ConnectionLost])
       \<and> releases (main_run put s (xs @ ConnectionLost # ys)) = releases s"
proof -
  have pre: "phase (main_run put s xs) \<in> {Consuming, Lost}" "releases (main_run put s xs) = releases s"
    using main_run_no_cancel [of s xs put] assms by auto
  define t where "t = main_step put (main_run put s xs) ConnectionLost"
  have t: "phase t = Lost" "releases t = releases s"
    using pre by (auto simp: t_def)
  have "main_run put t ys = t"
    using main_run_lost [OF t(1)] assms(2) by simp
  then show ?thesis using t by (simp add: main_run_append t_def)
qed

lemma connection_loss_freezes_main_witness:
  "phase (main_start ok_broker no_codecs demo_args (aq_new 0 :: event aqueue)) = Consuming
   \<and> Cancel \<notin> set ([Deliver ping_msg] @ [Deliver ping_msg])
   \<and> aq_items (sink (main_run aq_put (main_start ok_broker no_codecs demo_args (aq_new 0 :: event aqueue))
        ([Deliver ping_msg] @ ConnectionLost # [Deliver ping_msg]))) = [mk_event (ustr ''ping'')]
   \<and> phase (main_run aq_put (main_start ok_broker no_codecs demo_args (aq_new 0 :: event aqueue))
        ([Deliver ping_msg] @ ConnectionLost # [Deliver ping_msg])) = Lost"
proof -
  have h: "phase (main_start ok_broker no_codecs demo_args (aq_new 0 :: event aqueue)) = Consuming"
    "Cancel \<notin> set ([Deliver ping_msg] @ [Deliver ping_msg])"
    by (simp_all add: demo_start)
  show ?thesis using h connection_loss_freezes_main [OF h, of aq_put]
    by (simp add: demo_start deliver_cases decode_result_def utf8_fast_path [simplified] ping_msg_def
        utf8_decode_def utf8_next_def aq_put_def aq_new_def)
qed

lemma adapter_inv_start: "adapter_inv (main_start br reg a q0)"
  by (simp add: adapter_inv_def main_start_def abort_session_def Let_def split: option.split)

lemma adapter_inv_step: "adapter_inv s \<Longrightarrow> adapter_inv (main_step put s i)"
  by (cases i) (auto simp: adapter_inv_def split: phase.splits)

lemma reachable_adapter_inv: "reachable put s \<Longrightarrow> adapter_inv s"
  by (induction rule: reachable.induct) (auto intro: adapter_inv_start adapter_inv_step)


text \<open>C4: in every state \<open>main\<close> can reach there was exactly one connection attempt,
  the connection is released at most once, every finished run has released each session it
  opened, and a consuming run holds one session and one consumer and has released nothing.\<close>

theorem resource_release_invariant:
  assumes "reachable put s"
  shows "length (connect_urls s) = 1 \<and> releases s \<le> 1
       \<and> (\<forall>oc. phase s = Finished oc \<longrightarrow> releases s = sessions s)
       \<and> (phase s = Consuming \<longrightarrow> releases s = 0 \<and> sessions s = 1 \<and> consumers s = 1)"
  using reachable_adapter_inv[OF assms] by (auto simp: adapter_inv_def split: phase.splits)

lemma resource_release_invariant_witness:
  "reachable aq_put (main_step aq_put (main_start ok_broker no_codecs demo_args (aq_new 0 :: event aqueue)) Cancel)
   \<and> releases (main_step aq_put (main_start ok_broker no_codecs demo_args (aq_new 0 :: event aqueue)) Cancel) \<le> 1"
proof -
  have r: "reachable aq_put (main_step aq_put (main_start ok_broker no_codecs demo_args (aq_new 0 :: event aqueue)) Cancel)"
    by (rule reachable.step [OF reachable.start])
  show ?thesis using r resource_release_invariant [OF r] by blast
qed

text \<open>C6: when every broker call succeeds, \<open>main\<close> opens exactly one session, one
  channel, declares the configured queue once, registers one consumer and is left
  consuming, with nothing released.\<close>

theorem main_start_success:
  assumes "br_connect br (amqp_url (read_params a)) = None" "br_channel br = None"
    "br_declare br (channel_name (read_params a)) = None" "br_consume br = None"
  shows "main_start br reg a q0 =
           \<lparr>phase = Consuming, sink = q0, diags = [], enc = encoding (read_params a), codecs = reg,
            connect_urls = [amqp_url (read_params a)], sessions = 1, channels = 1,
            declared = [channel_name (read_params a)], consumers = 1, releases = 0\<rparr>"
  using assms by (simp add: main_start_def Let_def)

lemma main_start_success_witness:
  "sessions (main_start ok_broker no_codecs demo_args (aq_new 0 :: event aqueue)) = 1
   \<and> consumers (main_start ok_broker no_codecs demo_args (aq_new 0 :: event aqueue)) = 1"
  using main_start_success [of ok_broker demo_args no_codecs "aq_new 0 :: event aqueue"]
  by (simp add: ok_broker_def)

text \<open>C7: a failing \<open>connect\<close> ends \<open>main\<close> with that error before any session
  exists, so nothing is released.\<close>

theorem main_start_connect_error:
  assumes "br_connect br (amqp_url (read_params a)) = Some err"
  shows "phase (main_start br reg a q0) = Finished (Raised (ConnectFailed err))
       \<and> sessions (main_start br reg a q0) = 0 \<and> releases (main_start br reg a q0) = 0"
  using assms by (simp add: main_start_def Let_def)

lemma main_start_connect_error_witness:
  "phase (main_start fail_connect_broker no_codecs demo_args (aq_new 0 :: event aqueue))
     = Finished (Raised (ConnectFailed (BrokerError 111)))
   \<and> releases (main_start fail_connect_broker no_codecs demo_args (aq_new 0 :: event aqueue)) = 0"
  using main_start_connect_error [of fail_connect_broker demo_args "BrokerError 111" no_codecs
                                     "aq_new 0 :: event aqueue"]
  by (simp add: fail_connect_broker_def ok_broker_def)

text \<open>C8: when \<open>connect\<close> succeeds but a later start-up call fails, \<open>main\<close> ends
  with the session released exactly once and no consumer registered.\<close>

theorem main_start_failure_released:
  assumes "br_connect br (amqp_url (read_params a)) = None"
    and "phase (main_start br reg a q0) \<noteq> Consuming"
  shows "sessions (main_start br reg a q0) = 1 \<and> releases (main_start br reg a q0) = 1
       \<and> consumers (main_start br reg a q0) = 0"
  using assms by (auto simp: main_start_def Let_def abort_session_def split: option.splits)

lemma main_start_failure_released_witness:
  "phase (main_start fail_channel_broker no_codecs demo_args (aq_new 0 :: event aqueue)) \<noteq> Consuming
   \<and> releases (main_start fail_channel_broker no_codecs demo_args (aq_new 0 :: event aqueue)) = 1"
proof -
  have h: "br_connect fail_channel_broker (amqp_url (read_params demo_args)) = None"
    "phase (main_start fail_channel_broker no_codecs demo_args (aq_new 0 :: event aqueue)) \<noteq> Consuming"
    by (simp_all add: fail_channel_broker_def ok_broker_def main_start_def Let_def abort_session_def)
  show ?thesis using h main_start_failure_released [OF h] by blast
qed

text \<open>C2: while the broker delivers and the host reads the \<open>asyncio.Queue\<close>, in any
  interleaving without cancellation or connection loss, what the host has read followed by
  what is still queued is exactly the decoded messages in delivery order, and the adapter
  keeps consuming.\<close>

theorem host_fifo:
  assumes "phase s = Consuming" "no_stop is"
  shows "(case sys_run (s, seen) is of (s', seen') \<Rightarrow>
            seen' @ aq_items (sink s') = seen @ aq_items (sink s) @ decoded_events (codecs s) (enc s) (deliveries is)
            \<and> phase s' = Consuming \<and> codecs s' = codecs s \<and> enc s' = enc s)"
  using assms
proof (induction "is" arbitrary: s seen)
  case Nil
  then show ?case by (simp add: deliveries_def decoded_events_def)
next
  case (Cons i "is")
  have ns: "no_stop is" and i: "i \<noteq> AdapterIn Cancel" "i \<noteq> AdapterIn ConnectionLost"
    using Cons.prems(2) by (simp_all add: no_stop_def)
  show ?case
  proof (cases i)
    case HostGet
    show ?thesis
    proof (cases "aq_items (sink s)")
      case Nil
      then show ?thesis using Cons.IH[OF Cons.prems(1) ns, of seen] HostGet
        by (simp add: aq_get_nowait_def deliveries_def)
    next
      case Cons2: (Cons e es)
      let ?s1 = "s\<lparr>sink := sink s\<lparr>aq_items := es\<rparr>\<rparr>"
      have "phase ?s1 = Consuming" using Cons.prems(1) by simp
      note IH = Cons.IH[OF this ns, of "seen @ [e]"]
      show ?thesis using IH HostGet Cons2
        by (simp add: aq_get_nowait_def deliveries_def split: prod.splits)
    qed
  next
    case (AdapterIn j)
    then obtain m where j: "j = Deliver m" using i by (cases j) auto
    let ?s1 = "deliver aq_put m s"
    have ph: "phase ?s1 = Consuming" using Cons.prems(1) by simp
    have items: "aq_items (sink ?s1) = aq_items (sink s) @ decoded_events (codecs s) (enc s) [m]"
      by (simp add: deliver_cases decoded_events_def aq_put_def split: sum.split)
    note IH = Cons.IH[OF ph ns, of seen]
    show ?thesis using IH AdapterIn j Cons.prems(1) items
      by (simp add: deliveries_def decoded_events_def split: prod.splits)
  qed
qed

lemma host_fifo_witness:
  "phase (main_start ok_broker no_codecs demo_args (aq_new 0)) = Consuming
   \<and> no_stop [AdapterIn (Deliver ping_msg), HostGet, AdapterIn (Deliver bad_msg), HostGet]
   \<and> (case sys_run (main_start ok_broker no_codecs demo_args (aq_new 0), [])
                [AdapterIn (Deliver ping_msg), HostGet, AdapterIn (Deliver bad_msg), HostGet] of
        (s', seen') \<Rightarrow> seen' @ aq_items (sink s') = [mk_event (ustr ''ping'')])"
proof -
  have h: "phase (main_start ok_broker no_codecs demo_args (aq_new 0)) = Consuming"
    "no_stop [AdapterIn (Deliver ping_msg), HostGet, AdapterIn (Deliver bad_msg), HostGet]"
    by (simp_all add: demo_start no_stop_def)
  have "decoded_events no_codecs (PyStr (ustr ''utf-8'')) [ping_msg, bad_msg] = [mk_event (ustr ''ping'')]"
    by (simp add: decoded_events_def decode_result_def utf8_fast_path [simplified] ping_msg_def
        bad_msg_def utf8_decode_def utf8_next_def)
  then show ?thesis using h host_fifo [OF h, of "[]"]
    by (simp add: demo_start deliveries_def aq_new_def split: prod.splits)
qed

end
