(* ===== verification/Source_Spec.thy ===== *)
theory Source_Spec
  imports Runner
begin

text \<open>
  The contract of an event-source plugin, as the specification states it, and the proof
  that the adapter implements it.  The abstract source is running, stalled (it gets no more
  messages but has not ended) or stopped; it holds the events it has handed to the host
  and whether it has closed its connection.  While running, a message adds the event of its
  decoded body, or nothing when the body does not decode; cancellation stops it and closes
  the connection; losing the connection stalls it.  \<open>abs_state\<close> reads an adapter state
  through the sink's view (the interface \<open>sink_log\<close> of \<open>Sink\<close>); the refinement lemmas
  say that every step and every run of \<open>main\<close> is mapped onto the matching abstract
  step or run.
\<close>

datatype src_mode = Running | Stalled | Stopped

record src_state =
  src_mode :: src_mode
  src_events :: "event list"
  src_closed :: bool

fun src_step :: "(bytes \<Rightarrow> decode_error + pystr) \<Rightarrow> src_state \<Rightarrow> input \<Rightarrow> src_state" where
  "src_step dec a (Deliver m) =
     (if src_mode a = Running
      then a\<lparr>src_events := src_events a @ (case dec (body m) of Inl _ \<Rightarrow> [] | Inr t \<Rightarrow> [mk_event t])\<rparr>
      else a)"
| "src_step dec a Cancel =
     (if src_mode a = Stopped then a else a\<lparr>src_mode := Stopped, src_closed := True\<rparr>)"
| "src_step dec a ConnectionLost = (if src_mode a = Running then a\<lparr>src_mode := Stalled\<rparr> else a)"

fun src_run :: "(bytes \<Rightarrow> decode_error + pystr) \<Rightarrow> src_state \<Rightarrow> input list \<Rightarrow> src_state" where
  "src_run dec a [] = a"
| "src_run dec a (i # is) = src_run dec (src_step dec a i) is"

text \<open>The abstract start: running when every start-up call succeeded, else stopped, with the
  connection closed exactly when one had been opened.\<close>

definition src_init :: "bool \<Rightarrow> bool \<Rightarrow> event list \<Rightarrow> src_state" where
  "src_init ok connected evs =
     \<lparr>src_mode = (if ok then Running else Stopped), src_events = evs, src_closed = (\<not> ok \<and> connected)\<rparr>"

definition start_ok :: "broker \<Rightarrow> params \<Rightarrow> bool" where
  "start_ok br p \<longleftrightarrow> br_connect br (amqp_url p) = None \<and> br_channel br = None
     \<and> br_declare br (channel_name p) = None \<and> br_consume br = None"

definition abs_state :: "('q \<Rightarrow> event list) \<Rightarrow> 'q adapter \<Rightarrow> src_state" where
  "abs_state view s =
     \<lparr>src_mode = (case phase s of Consuming \<Rightarrow> Running | Lost \<Rightarrow> Stalled | Finished _ \<Rightarrow> Stopped),
      src_events = view (sink s), src_closed = (releases s \<noteq> 0)\<rparr>"

subsection \<open>Refinement\<close>

lemma main_step_refines:
  assumes "sink_log put view"
  shows "abs_state view (main_step put s i) = src_step (bytes_decode (codecs s) (enc s)) (abs_state view s) i"
proof (cases i)
  case (Deliver m)
  then show ?thesis using assms
    by (auto simp: abs_state_def deliver_cases decode_result_def sink_log_def split: sum.split phase.split)
qed (auto simp: abs_state_def split: phase.split)

lemma main_run_refines:
  "sink_log put view \<Longrightarrow>
   abs_state view (main_run put s is) = src_run (bytes_decode (codecs s) (enc s)) (abs_state view s) is"
  by (induction "is" arbitrary: s) (simp_all add: main_step_refines)

lemma main_start_refines:
  "abs_state view (main_start br reg a q0)
     = src_init (start_ok br (read_params a)) (br_connect br (amqp_url (read_params a)) = None) (view q0)"
  by (simp add: abs_state_def src_init_def start_ok_def main_start_def Let_def abort_session_def
      split: option.split)

text \<open>C26: \<open>main\<close> refines the abstract event source: from start-up through any sequence of
  deliveries, cancellations and connection losses, the adapter seen through its sink is the
  abstract source started in the state the broker's answers select, decoding with the
  configured encoding.\<close>

theorem main_refines_source:
  assumes "sink_log put view"
  shows "abs_state view (main_run put (main_start br reg a q) ins)
     = src_run (bytes_decode reg (encoding (read_params a)))
         (src_init (start_ok br (read_params a)) (br_connect br (amqp_url (read_params a)) = None) (view q))
         ins"
  using main_run_refines [OF assms, of "main_start br reg a q" ins] main_start_refines [of view br reg a q]
  by simp

lemma main_refines_source_witness:
  "sink_log mock_put stdout
   \<and> src_events (abs_state stdout (main_run mock_put (main_start ok_broker no_codecs demo_args \<lparr>stdout = []\<rparr>)
        [Deliver ping_msg, Cancel, Deliver ping_msg]))
     = src_events (src_run (bytes_decode no_codecs (encoding (read_params demo_args)))
         (src_init (start_ok ok_broker (read_params demo_args))
            (br_connect ok_broker (amqp_url (read_params demo_args)) = None) [])
         [Deliver ping_msg, Cancel, Deliver ping_msg])"
  using main_refines_source [OF sink_log_mock, where br = ok_broker and reg = no_codecs
      and a = demo_args and q = "\<lparr>stdout = []\<rparr>" and ins = "[Deliver ping_msg, Cancel, Deliver ping_msg]"]
  by (simp add: sink_log_mock)

end
