(* ===== verification/Main_Loop.thy ===== *)
theory Main_Loop
  imports Runner "HOL-Library.Stream"
begin

text \<open>
  \<open>main\<close> as the coroutine the host awaits (\<open>asyncio.run(main(...))\<close> in the
  \<open>__main__\<close> block, lines 56--77 of \<open>src/extensions/eda/plugins/event_source/amq.py\<close>):
  after start-up it waits on \<open>asyncio.Future()\<close> (line 53) while the world delivers an
  unbounded stream of events, and it returns only when its state has finished.  Whether it
  returns depends on that stream, so the loop is a \<open>partial_function\<close> in the option
  monad: \<open>None\<close> is the run that never returns.  The theorem of this theory says exactly
  when \<open>main\<close> returns: when, and only when, it is cancelled.
\<close>

partial_function (option) main_until ::
  "('q \<Rightarrow> event \<Rightarrow> 'q) \<Rightarrow> 'q adapter \<Rightarrow> input stream \<Rightarrow> 'q adapter option" where
  "main_until put s ins =
     (case phase s of
        Finished _ \<Rightarrow> Some s
      | _ \<Rightarrow> main_until put (main_step put s (shd ins)) (stl ins))"

definition run_main ::
  "('q \<Rightarrow> event \<Rightarrow> 'q) \<Rightarrow> broker \<Rightarrow> registry \<Rightarrow> args \<Rightarrow> 'q \<Rightarrow> input stream \<Rightarrow> 'q adapter option" where
  "run_main put br reg a q0 ins = main_until put (main_start br reg a q0) ins"

text \<open>The \<open>__main__\<close> block: \<open>main\<close> with a fresh \<open>MockQueue\<close> and the demo arguments.\<close>

definition mock_main :: "broker \<Rightarrow> registry \<Rightarrow> input stream \<Rightarrow> mock_queue adapter option" where
  "mock_main br reg ins = run_main mock_put br reg demo_args \<lparr>stdout = []\<rparr> ins"

subsection \<open>Lemmas\<close>

lemma main_step_finishes: "phase (main_step put s i) = Finished oc \<Longrightarrow> i = Cancel \<or> phase s = Finished oc"
  by (cases i) (auto split: if_splits phase.splits)

lemma main_until_finished: "phase s = Finished oc \<Longrightarrow> main_until put s ins = Some s"
  by (simp add: main_until.simps)

lemma main_until_running:
  "phase s = Consuming \<or> phase s = Lost \<Longrightarrow>
   main_until put s ins = main_until put (main_step put s (shd ins)) (stl ins)"
  by (subst main_until.simps) auto

lemma main_until_Some_cancelled:
  assumes "main_until put s ins = Some s'"
  shows "(\<exists>oc. phase s = Finished oc) \<or> Cancel \<in> sset ins"
proof (rule main_until.raw_induct
    [where P = "\<lambda>put s ins s'. (\<exists>oc. phase s = Finished oc) \<or> Cancel \<in> sset ins", OF _ assms])
  fix f put s ins s'
  assume IH: "\<And>put s ins s'. f put s ins = Some s' \<Longrightarrow> (\<exists>oc. phase s = Finished oc) \<or> Cancel \<in> sset ins"
    and step: "(case phase s of Finished _ \<Rightarrow> Some s
                | _ \<Rightarrow> f put (main_step put s (shd ins)) (stl ins)) = Some s'"
  show "(\<exists>oc. phase s = Finished oc) \<or> Cancel \<in> sset ins"
  proof (cases "\<exists>oc. phase s = Finished oc")
    case False
    then have "f put (main_step put s (shd ins)) (stl ins) = Some s'"
      using step by (cases "phase s") auto
    then have "(\<exists>oc. phase (main_step put s (shd ins)) = Finished oc) \<or> Cancel \<in> sset (stl ins)"
      by (rule IH)
    then show ?thesis
    proof
      assume "\<exists>oc. phase (main_step put s (shd ins)) = Finished oc"
      then have "shd ins = Cancel" using False main_step_finishes by blast
      then show ?thesis using shd_sset [of ins] by simp
    next
      assume "Cancel \<in> sset (stl ins)"
      then show ?thesis by (simp add: stl_sset)
    qed
  qed simp
qed

lemma phase_running: "(\<nexists>oc. phase s = Finished oc) \<Longrightarrow> phase s = Consuming \<or> phase s = Lost"
  by (cases "phase s") auto

lemma main_until_cancel_nth:
  "ins !! n = Cancel \<Longrightarrow> \<exists>s'. main_until put s ins = Some s'"
proof (induction n arbitrary: s ins)
  case 0
  show ?case
  proof (cases "\<exists>oc. phase s = Finished oc")
    case True
    then show ?thesis by (auto simp: main_until_finished)
  next
    case False
    then have r: "phase s = Consuming \<or> phase s = Lost" by (rule phase_running)
    then have "phase (main_step put s (shd ins)) = Finished Cancelled" using 0 by auto
    then show ?thesis using r by (simp add: main_until_running main_until_finished)
  qed
next
  case (Suc n)
  have c: "stl ins !! n = Cancel" using Suc.prems by simp
  show ?case
  proof (cases "\<exists>oc. phase s = Finished oc")
    case True
    then show ?thesis by (auto simp: main_until_finished)
  next
    case False
    then have "phase s = Consuming \<or> phase s = Lost" by (rule phase_running)
    then show ?thesis using Suc.IH [OF c] by (simp add: main_until_running)
  qed
qed

text \<open>C27: once started, \<open>main\<close> returns if and only if it is cancelled: a stream of events
  with a cancellation somewhere makes it return, and without one it never returns, however
  many messages arrive and even after the connection is lost.\<close>

theorem main_returns_iff_cancelled:
  assumes "phase s = Consuming \<or> phase s = Lost"
  shows "(\<exists>s'. main_until put s ins = Some s') \<longleftrightarrow> Cancel \<in> sset ins"
proof
  assume "\<exists>s'. main_until put s ins = Some s'"
  then show "Cancel \<in> sset ins" using assms main_until_Some_cancelled by fastforce
next
  assume "Cancel \<in> sset ins"
  then obtain n where "ins !! n = Cancel" by (metis imageE sset_range)
  then show "\<exists>s'. main_until put s ins = Some s'" by (rule main_until_cancel_nth)
qed

lemma main_returns_iff_cancelled_witness:
  "(\<exists>s'. mock_main ok_broker no_codecs (Deliver ping_msg ## sconst Cancel) = Some s')
   \<and> mock_main ok_broker no_codecs (sconst (Deliver ping_msg)) = None"
proof -
  have h: "phase (main_start ok_broker no_codecs demo_args \<lparr>stdout = []\<rparr>) = Consuming
         \<or> phase (main_start ok_broker no_codecs demo_args \<lparr>stdout = []\<rparr>) = Lost"
    by (simp add: demo_start)
  have "Cancel \<in> sset (Deliver ping_msg ## sconst Cancel)" by simp
  then have a: "\<exists>s'. main_until mock_put (main_start ok_broker no_codecs demo_args \<lparr>stdout = []\<rparr>)
                     (Deliver ping_msg ## sconst Cancel) = Some s'"
    using main_returns_iff_cancelled [OF h] by blast
  have "Cancel \<notin> sset (sconst (Deliver ping_msg))" by simp
  then have "\<not> (\<exists>s'. main_until mock_put (main_start ok_broker no_codecs demo_args \<lparr>stdout = []\<rparr>)
                     (sconst (Deliver ping_msg)) = Some s')"
    using main_returns_iff_cancelled [OF h] by blast
  then have b: "main_until mock_put (main_start ok_broker no_codecs demo_args \<lparr>stdout = []\<rparr>)
                  (sconst (Deliver ping_msg)) = None" by auto
  show ?thesis using a b by (simp add: mock_main_def run_main_def)
qed

end
