(* ===== verification/Concurrent_Sink.thy ===== *)
theory Concurrent_Sink
  imports Runner "HOL-Library.Multiset"
begin

text \<open>
  Callbacks as concurrent tasks and a bounded host queue.  The broker client runs every
  delivery's callback \<open>on_message\<close> (lines 28--34 of
  \<open>src/extensions/eda/plugins/event_source/amq.py\<close>) as a task of its own, in delivery
  order; the callback prints and decodes without suspending and then awaits
  \<open>queue.put(event)\<close>.  With an unbounded host queue that \<open>put\<close> never suspends, so each
  callback runs to completion at once; the specification leaves a bounded queue open
  ("the Runner would have to suspend on push, preserving message order").  This theory
  models \<open>asyncio.Queue.put\<close> on a bounded queue as the standard library writes it: while
  the queue is full the task appends a future to \<open>_putters\<close> and waits; \<open>get_nowait\<close>
  takes the head item and completes the first waiting putter (\<open>_wakeup_next\<close>); a woken
  task re-checks \<open>full()\<close> when it next runs, and waits again (at the back) if another
  task filled the queue first.  The scheduler's choices are the steps of a schedule: a
  delivery, a \<open>get\<close> by the host, or the resumption of one woken task.
\<close>

datatype task_state = Blocked | Woken

record csys =
  cq_items :: "event list"
  cq_max :: int
  cq_putters :: "nat list"
  cq_tasks :: "nat \<Rightarrow> (event \<times> task_state) option"
  cq_next :: nat
  cq_seen :: "event list"

definition cq_full :: "csys \<Rightarrow> bool" where
  "cq_full c \<longleftrightarrow> 0 < cq_max c \<and> cq_max c \<le> int (length (cq_items c))"

text \<open>\<open>await queue.put(e)\<close> by task \<open>t\<close>, from the test of the \<open>while\<close> loop: append
  when there is room (\<open>put_nowait\<close>), else register a putter and wait.\<close>

definition cq_put :: "nat \<Rightarrow> event \<Rightarrow> csys \<Rightarrow> csys" where
  "cq_put t e c =
     (if cq_full c
      then c\<lparr>cq_putters := cq_putters c @ [t], cq_tasks := (cq_tasks c)(t \<mapsto> (e, Blocked))\<rparr>
      else c\<lparr>cq_items := cq_items c @ [e], cq_tasks := (cq_tasks c)(t := None)\<rparr>)"

text \<open>A delivery: a new callback task runs until its \<open>put\<close> suspends or completes; a body
  that does not decode ends the task with the exception, and nothing is put.\<close>

definition cq_deliver :: "registry \<Rightarrow> pyval \<Rightarrow> msg \<Rightarrow> csys \<Rightarrow> csys" where
  "cq_deliver reg e m c =
     (let t = cq_next c; c1 = c\<lparr>cq_next := Suc t\<rparr> in
      case bytes_decode reg e (body m) of
        Inl _ \<Rightarrow> c1
      | Inr text \<Rightarrow> cq_put t (mk_event text) c1)"

text \<open>The host's \<open>get\<close> on a non-empty queue (\<open>get_nowait\<close>): take the head and wake the
  first waiting putter; on an empty queue the host waits, which changes nothing.\<close>

definition cq_get :: "csys \<Rightarrow> csys" where
  "cq_get c =
     (case cq_items c of
        [] \<Rightarrow> c
      | e # es \<Rightarrow>
          (let c1 = c\<lparr>cq_items := es, cq_seen := cq_seen c @ [e]\<rparr> in
           case cq_putters c of
             [] \<Rightarrow> c1
           | t # ts \<Rightarrow>
               c1\<lparr>cq_putters := ts,
                  cq_tasks := (case cq_tasks c t of
                                 None \<Rightarrow> cq_tasks c
                               | Some (ev, _) \<Rightarrow> (cq_tasks c)(t \<mapsto> (ev, Woken)))\<rparr>))"

text \<open>A woken task runs again: back at the test of the \<open>while\<close> loop.\<close>

definition cq_resume :: "nat \<Rightarrow> csys \<Rightarrow> csys" where
  "cq_resume t c =
     (case cq_tasks c t of
        Some (e, Woken) \<Rightarrow> cq_put t e c
      | _ \<Rightarrow> c)"

datatype sched = SDeliver msg | SGet | SResume nat

fun cq_step :: "registry \<Rightarrow> pyval \<Rightarrow> csys \<Rightarrow> sched \<Rightarrow> csys" where
  "cq_step reg e c (SDeliver m) = cq_deliver reg e m c"
| "cq_step reg e c SGet = cq_get c"
| "cq_step reg e c (SResume t) = cq_resume t c"

fun cq_run :: "registry \<Rightarrow> pyval \<Rightarrow> csys \<Rightarrow> sched list \<Rightarrow> csys" where
  "cq_run reg e c [] = c"
| "cq_run reg e c (s # ss) = cq_run reg e (cq_step reg e c s) ss"

definition cq_new :: "int \<Rightarrow> csys" where
  "cq_new m = \<lparr>cq_items = [], cq_max = m, cq_putters = [], cq_tasks = (\<lambda>_. None), cq_next = 0,
               cq_seen = []\<rparr>"

definition sched_msgs :: "sched list \<Rightarrow> msg list" where
  "sched_msgs ss = concat (map (\<lambda>s. case s of SDeliver m \<Rightarrow> [m] | _ \<Rightarrow> []) ss)"

text \<open>The events still held by waiting tasks, and everything the system holds: what the
  host has read, what is queued, and what waits.\<close>

definition task_ev :: "(event \<times> task_state) option \<Rightarrow> event multiset" where
  "task_ev x = (case x of None \<Rightarrow> {#} | Some (ev, _) \<Rightarrow> {#ev#})"

definition pending :: "csys \<Rightarrow> event multiset" where
  "pending c = (\<Sum>t<cq_next c. task_ev (cq_tasks c t))"

definition held :: "csys \<Rightarrow> event multiset" where
  "held c = mset (cq_seen c) + mset (cq_items c) + pending c"

text \<open>Well-formed states: the waiting putters are distinct and are exactly the blocked
  tasks, no task id at or above \<open>cq_next\<close> is in use, and while putters wait either an
  item is queued (a later \<open>get\<close> wakes one) or some task has already been woken.\<close>

definition cq_wf :: "csys \<Rightarrow> bool" where
  "cq_wf c \<longleftrightarrow> distinct (cq_putters c)
     \<and> (\<forall>t. t \<in> set (cq_putters c) \<longleftrightarrow> (\<exists>e. cq_tasks c t = Some (e, Blocked)))
     \<and> (\<forall>t. cq_next c \<le> t \<longrightarrow> cq_tasks c t = None)
     \<and> (cq_putters c \<noteq> [] \<longrightarrow> cq_items c \<noteq> [] \<or> (\<exists>t e. cq_tasks c t = Some (e, Woken)))"

text \<open>The steps the host and the event loop take without new deliveries.\<close>

definition host_only :: "sched \<Rightarrow> bool" where
  "host_only s = (case s of SDeliver _ \<Rightarrow> False | _ \<Rightarrow> True)"

text \<open>Three messages for the scenario below.\<close>

definition msg_a :: msg where "msg_a = \<lparr>body = bstr ''a'', delivery_tag = 1\<rparr>"
definition msg_b :: msg where "msg_b = \<lparr>body = bstr ''b'', delivery_tag = 2\<rparr>"
definition msg_c :: msg where "msg_c = \<lparr>body = bstr ''c'', delivery_tag = 3\<rparr>"

subsection \<open>Lemmas\<close>

lemma sched_msgs_Cons: "sched_msgs (s # ss) = sched_msgs [s] @ sched_msgs ss"
  by (simp add: sched_msgs_def)

lemma decoded_events_append:
  "decoded_events reg e (xs @ ys) = decoded_events reg e xs @ decoded_events reg e ys"
  by (simp add: decoded_events_def)

text \<open>C28: with a bounded host queue the code does not keep delivery order.  With
  \<open>maxsize = 1\<close>: \<open>a\<close> is queued, \<open>b\<close>'s callback waits, the host takes \<open>a\<close> and wakes
  \<open>b\<close>'s task, but \<open>c\<close>'s callback runs first and finds room; \<open>b\<close>'s task re-checks, finds
  the queue full and waits again.  The host reads \<open>a\<close>, \<open>c\<close>, \<open>b\<close>, although the broker
  delivered \<open>a\<close>, \<open>b\<close>, \<open>c\<close>.\<close>

theorem bounded_sink_reorders:
  "sched_msgs [SDeliver msg_a, SDeliver msg_b, SGet, SDeliver msg_c, SResume 1, SGet, SResume 1, SGet]
     = [msg_a, msg_b, msg_c]
   \<and> cq_seen (cq_run no_codecs (PyStr (ustr ''utf-8'')) (cq_new 1)
        [SDeliver msg_a, SDeliver msg_b, SGet, SDeliver msg_c, SResume 1, SGet, SResume 1, SGet])
     = [mk_event (ustr ''a''), mk_event (ustr ''c''), mk_event (ustr ''b'')]"
  by (simp add: sched_msgs_def cq_new_def cq_deliver_def cq_put_def cq_full_def cq_get_def cq_resume_def
      Let_def utf8_fast_path [simplified] utf8_decode_def utf8_next_def msg_a_def msg_b_def msg_c_def)


subsection \<open>No event is lost or duplicated\<close>

lemma sum_fun_upd:
  fixes g :: "'b \<Rightarrow> 'c :: comm_monoid_add" and t n :: nat
  assumes "t < n"
  shows "(\<Sum>i<n. g ((f(t := v)) i)) + g (f t) = (\<Sum>i<n. g (f i)) + g v"
proof -
  have t: "t \<in> {..<n}" using assms by simp
  have r: "(\<Sum>i\<in>{..<n} - {t}. g ((f(t := v)) i)) = (\<Sum>i\<in>{..<n} - {t}. g (f i))"
    by (rule sum.cong) auto
  show ?thesis
    using sum.remove [OF finite_lessThan [of n] t, of "\<lambda>i. g ((f(t := v)) i)"]
      sum.remove [OF finite_lessThan [of n] t, of "\<lambda>i. g (f i)"] r
    by (simp add: ac_simps)
qed

lemma pending_upd:
  assumes "t < cq_next c" "cq_tasks c' = (cq_tasks c)(t := v)" "cq_next c' = cq_next c"
  shows "pending c' + task_ev (cq_tasks c t) = pending c + task_ev v"
  unfolding pending_def assms(2,3) by (rule sum_fun_upd [OF assms(1)])

lemma held_put_fresh:
  assumes "t < cq_next c" "cq_tasks c t = None"
  shows "held (cq_put t e c) = held c + {#e#}"
proof (cases "cq_full c")
  case True
  have "pending (cq_put t e c) = pending c + {#e#}"
    using pending_upd [OF assms(1), of "cq_put t e c" "Some (e, Blocked)"] assms True
    by (simp add: cq_put_def task_ev_def)
  then show ?thesis using True by (simp add: held_def cq_put_def ac_simps)
next
  case False
  have "pending (cq_put t e c) = pending c"
    using pending_upd [OF assms(1), of "cq_put t e c" None] assms False
    by (simp add: cq_put_def task_ev_def)
  then show ?thesis using False by (simp add: held_def cq_put_def ac_simps)
qed

lemma held_put_task:
  assumes "t < cq_next c" "cq_tasks c t = Some (e, st)"
  shows "held (cq_put t e c) = held c"
proof (cases "cq_full c")
  case True
  have "pending (cq_put t e c) = pending c"
    using pending_upd [OF assms(1), of "cq_put t e c" "Some (e, Blocked)"] assms True
    by (simp add: cq_put_def task_ev_def)
  then show ?thesis using True by (simp add: held_def cq_put_def)
next
  case False
  have p: "pending c = pending (cq_put t e c) + {#e#}"
    using pending_upd [OF assms(1), of "cq_put t e c" None] assms False
    by (simp add: cq_put_def task_ev_def)
  show ?thesis using False by (simp add: held_def p) (simp add: cq_put_def)
qed


lemma cq_put_frame [simp]:
  "cq_next (cq_put t e c) = cq_next c" "cq_max (cq_put t e c) = cq_max c"
  "cq_seen (cq_put t e c) = cq_seen c"
  by (simp_all add: cq_put_def)

lemma pending_next:
  "cq_tasks c (cq_next c) = None \<Longrightarrow> pending (c\<lparr>cq_next := Suc (cq_next c)\<rparr>) = pending c"
  by (simp add: pending_def task_ev_def)

lemma held_deliver:
  assumes fresh: "\<forall>t. cq_next c \<le> t \<longrightarrow> cq_tasks c t = None"
  shows "held (cq_deliver reg en m c) = held c + mset (decoded_events reg en [m])
       \<and> (\<forall>t. cq_next (cq_deliver reg en m c) \<le> t \<longrightarrow> cq_tasks (cq_deliver reg en m c) t = None)"
proof -
  let ?c1 = "c\<lparr>cq_next := Suc (cq_next c)\<rparr>"
  have h1: "held ?c1 = held c" using fresh pending_next [of c] by (simp add: held_def)
  have f1: "cq_next c < cq_next ?c1" "cq_tasks ?c1 (cq_next c) = None" using fresh by simp_all
  show ?thesis
  proof (cases "bytes_decode reg en (body m)")
    case (Inl err)
    then show ?thesis using h1 fresh
      by (simp add: cq_deliver_def Let_def decoded_events_def decode_result_def)
  next
    case (Inr str)
    have "held (cq_put (cq_next c) (mk_event str) ?c1) = held c + {#mk_event str#}"
      using held_put_fresh [OF f1] h1 by simp
    moreover have "\<forall>t. Suc (cq_next c) \<le> t \<longrightarrow> cq_tasks (cq_put (cq_next c) (mk_event str) ?c1) t = None"
      using fresh by (simp add: cq_put_def)
    ultimately show ?thesis using Inr
      by (simp add: cq_deliver_def Let_def decoded_events_def decode_result_def)
  qed
qed

lemma held_get:
  assumes fresh: "\<forall>t. cq_next c \<le> t \<longrightarrow> cq_tasks c t = None"
  shows "held (cq_get c) = held c
       \<and> (\<forall>t. cq_next (cq_get c) \<le> t \<longrightarrow> cq_tasks (cq_get c) t = None)"
proof (cases "cq_items c")
  case Nil
  then show ?thesis using fresh by (simp add: cq_get_def)
next
  case (Cons e es)
  show ?thesis
  proof (cases "cq_putters c")
    case Nil
    then show ?thesis using Cons fresh by (simp add: cq_get_def held_def pending_def)
  next
    case (Cons t ts)
    show ?thesis
    proof (cases "cq_tasks c t")
      case None
      then show ?thesis using Cons \<open>cq_items c = e # es\<close> fresh
        by (simp add: cq_get_def held_def pending_def)
    next
      case (Some x)
      obtain ev st where x: "x = (ev, st)" by (cases x)
      have t: "t < cq_next c" using fresh Some by (cases "cq_next c \<le> t") auto
      let ?c' = "cq_get c"
      have "pending ?c' + task_ev (cq_tasks c t) = pending c + task_ev (Some (ev, Woken))"
        using Cons \<open>cq_items c = e # es\<close> Some x
        by (intro pending_upd [OF t]) (simp_all add: cq_get_def)
      then have "pending ?c' = pending c" using Some x by (simp add: task_ev_def)
      then show ?thesis using Cons \<open>cq_items c = e # es\<close> Some x fresh t
        by (simp add: cq_get_def held_def)
    qed
  qed
qed

lemma held_resume:
  assumes fresh: "\<forall>t. cq_next c \<le> t \<longrightarrow> cq_tasks c t = None"
  shows "held (cq_resume t c) = held c
       \<and> (\<forall>u. cq_next (cq_resume t c) \<le> u \<longrightarrow> cq_tasks (cq_resume t c) u = None)"
proof (cases "cq_tasks c t")
  case None
  then show ?thesis using fresh by (simp add: cq_resume_def)
next
  case (Some x)
  obtain ev st where x: "x = (ev, st)" by (cases x)
  have t: "t < cq_next c" using fresh Some by (cases "cq_next c \<le> t") auto
  show ?thesis
  proof (cases st)
    case Blocked
    then show ?thesis using Some x fresh by (simp add: cq_resume_def)
  next
    case Woken
    have "held (cq_put t ev c) = held c" using held_put_task [OF t] Some x by simp
    moreover have "\<forall>u. cq_next c \<le> u \<longrightarrow> cq_tasks (cq_put t ev c) u = None"
      using fresh t by (simp add: cq_put_def)
    ultimately show ?thesis using Some x Woken by (simp add: cq_resume_def)
  qed
qed


lemma held_step:
  assumes "\<forall>t. cq_next c \<le> t \<longrightarrow> cq_tasks c t = None"
  shows "held (cq_step reg en c s) = held c + mset (decoded_events reg en (sched_msgs [s]))
       \<and> (\<forall>t. cq_next (cq_step reg en c s) \<le> t \<longrightarrow> cq_tasks (cq_step reg en c s) t = None)"
  using held_deliver [OF assms] held_get [OF assms] held_resume [OF assms]
  by (cases s) (simp_all add: sched_msgs_def decoded_events_def)

lemma held_run:
  "\<forall>t. cq_next c \<le> t \<longrightarrow> cq_tasks c t = None \<Longrightarrow>
   held (cq_run reg en c ss) = held c + mset (decoded_events reg en (sched_msgs ss))"
proof (induction ss arbitrary: c)
  case Nil
  then show ?case by (simp add: sched_msgs_def decoded_events_def)
next
  case (Cons s ss)
  note st = held_step [OF Cons.prems, of reg en s]
  then show ?case using Cons.IH [of "cq_step reg en c s"]
    by (simp add: sched_msgs_Cons [of s ss] decoded_events_append ac_simps)
qed

text \<open>C29: even with a bounded queue no event is lost or duplicated: under every schedule,
  the events the host has read, those still queued and those held by waiting callback tasks
  are, as a multiset, exactly the events of the decoded messages.\<close>

theorem bounded_sink_conserves_events:
  "mset (cq_seen (cq_run reg en (cq_new m) ss)) + mset (cq_items (cq_run reg en (cq_new m) ss))
     + pending (cq_run reg en (cq_new m) ss)
   = mset (decoded_events reg en (sched_msgs ss))"
proof -
  have "held (cq_run reg en (cq_new m) ss) = held (cq_new m) + mset (decoded_events reg en (sched_msgs ss))"
    by (rule held_run) (simp add: cq_new_def)
  then show ?thesis by (simp add: held_def cq_new_def pending_def)
qed


subsection \<open>Waiting callbacks are not starved\<close>

lemma cq_wf_new: "cq_wf (cq_new m)"
  by (simp add: cq_wf_def cq_new_def)

lemma cq_wf_task_below: "cq_wf c \<Longrightarrow> cq_tasks c t = Some x \<Longrightarrow> t < cq_next c"
  by (cases "cq_next c \<le> t") (auto simp: cq_wf_def)

lemma cq_wf_put:
  assumes wf: "cq_wf c" and t: "t \<notin> set (cq_putters c)" "t < cq_next c"
    and st: "cq_tasks c t = None \<or> (\<exists>e'. cq_tasks c t = Some (e', Woken))"
  shows "cq_wf (cq_put t e c)"
proof (cases "cq_full c")
  case True
  then have "cq_items c \<noteq> []" by (auto simp: cq_full_def)
  then show ?thesis using wf t True by (auto simp: cq_wf_def cq_put_def)
next
  case False
  have "\<forall>u. u \<in> set (cq_putters c) \<longleftrightarrow> (\<exists>e. ((cq_tasks c)(t := None)) u = Some (e, Blocked))"
    using wf t by (auto simp: cq_wf_def)
  then show ?thesis using wf t False by (auto simp: cq_wf_def cq_put_def)
qed

lemma cq_wf_deliver: "cq_wf c \<Longrightarrow> cq_wf (cq_deliver reg en m c)"
proof -
  assume wf: "cq_wf c"
  let ?c1 = "c\<lparr>cq_next := Suc (cq_next c)\<rparr>"
  have n: "cq_tasks c (cq_next c) = None" using wf by (simp add: cq_wf_def)
  have w1: "cq_wf ?c1" using wf by (auto simp: cq_wf_def)
  have "cq_next c \<notin> set (cq_putters ?c1)" using wf n by (auto simp: cq_wf_def)
  then have "cq_wf (cq_put (cq_next c) e ?c1)" for e using n by (intro cq_wf_put [OF w1]) simp_all
  then show ?thesis using w1 by (simp add: cq_deliver_def Let_def split: sum.split)
qed

lemma cq_wf_get: "cq_wf c \<Longrightarrow> cq_wf (cq_get c)"
proof -
  assume wf: "cq_wf c"
  show ?thesis
  proof (cases "cq_items c")
    case Nil
    then show ?thesis using wf by (simp add: cq_get_def)
  next
    case (Cons e es)
    show ?thesis
    proof (cases "cq_putters c")
      case Nil
      then show ?thesis using wf Cons by (auto simp: cq_wf_def cq_get_def)
    next
      case (Cons t ts)
      obtain ev where b: "cq_tasks c t = Some (ev, Blocked)" using wf Cons by (auto simp: cq_wf_def)
      have "t \<notin> set ts" using wf Cons by (simp add: cq_wf_def)
      then show ?thesis using wf Cons \<open>cq_items c = e # es\<close> b
        by (auto simp: cq_wf_def cq_get_def)
    qed
  qed
qed

lemma cq_wf_resume: "cq_wf c \<Longrightarrow> cq_wf (cq_resume t c)"
proof -
  assume wf: "cq_wf c"
  show ?thesis
  proof (cases "\<exists>e. cq_tasks c t = Some (e, Woken)")
    case True
    then obtain e where e: "cq_tasks c t = Some (e, Woken)" by blast
    have "t \<notin> set (cq_putters c)" using wf e by (auto simp: cq_wf_def)
    moreover have "t < cq_next c" using wf e by (rule cq_wf_task_below)
    ultimately have "cq_wf (cq_put t e c)" using e by (intro cq_wf_put [OF wf]) simp_all
    then show ?thesis using e by (simp add: cq_resume_def)
  next
    case False
    then have "cq_resume t c = c"
      by (auto simp: cq_resume_def split: option.split task_state.split)
    then show ?thesis using wf by simp
  qed
qed

lemma cq_wf_run: "cq_wf c \<Longrightarrow> cq_wf (cq_run reg en c ss)"
proof (induction ss arbitrary: c)
  case (Cons s ss)
  have "cq_wf (cq_step reg en c s)"
    using Cons.prems cq_wf_deliver cq_wf_get cq_wf_resume by (cases s) simp_all
  then show ?case using Cons.IH by simp
qed simp


lemma pending_get: "cq_wf c \<Longrightarrow> pending (cq_get c) = pending c"
proof -
  assume wf: "cq_wf c"
  have h: "held (cq_get c) = held c" using held_get [of c] wf by (simp add: cq_wf_def)
  have si: "mset (cq_seen (cq_get c)) + mset (cq_items (cq_get c)) = mset (cq_seen c) + mset (cq_items c)"
    by (simp add: cq_get_def Let_def split: list.split)
  from h si show ?thesis by (simp add: held_def)
qed

lemma sched_msgs_host_only: "list_all host_only ss \<Longrightarrow> sched_msgs ss = []"
  by (induction ss) (auto simp: sched_msgs_def host_only_def split: sched.splits)

lemma cq_drain:
  "cq_wf c \<Longrightarrow> \<exists>ss. list_all host_only ss \<and> cq_items (cq_run reg en c ss) = []
                 \<and> pending (cq_run reg en c ss) = {#}"
proof (induction "2 * size (pending c) + length (cq_items c)" arbitrary: c rule: less_induct)
  case less
  show ?case
  proof (cases "cq_items c")
    case (Cons e es)
    have wf': "cq_wf (cq_get c)" by (rule cq_wf_get [OF less.prems])
    have "pending (cq_get c) = pending c" by (rule pending_get [OF less.prems])
    moreover have "cq_items (cq_get c) = es" using Cons by (simp add: cq_get_def Let_def split: list.split)
    ultimately have "2 * size (pending (cq_get c)) + length (cq_items (cq_get c))
                     < 2 * size (pending c) + length (cq_items c)" using Cons by simp
    then obtain ss where "list_all host_only ss \<and> cq_items (cq_run reg en (cq_get c) ss) = []
                          \<and> pending (cq_run reg en (cq_get c) ss) = {#}"
      using less.hyps wf' by blast
    then show ?thesis by (intro exI [of _ "SGet # ss"]) (simp add: host_only_def)
  next
    case Nil
    show ?thesis
    proof (cases "\<exists>t e. cq_tasks c t = Some (e, Woken)")
      case True
      then obtain t e where w: "cq_tasks c t = Some (e, Woken)" by blast
      have nf: "\<not> cq_full c" using Nil by (simp add: cq_full_def)
      have c': "cq_resume t c = c\<lparr>cq_items := [e], cq_tasks := (cq_tasks c)(t := None)\<rparr>"
        using w nf Nil by (simp add: cq_resume_def cq_put_def)
      have tb: "t < cq_next c" using less.prems w by (rule cq_wf_task_below)
      have "pending (cq_resume t c) + task_ev (cq_tasks c t) = pending c + task_ev None"
        by (rule pending_upd [OF tb]) (simp_all add: c')
      then have "pending (cq_resume t c) + {#e#} = pending c" using w by (simp add: task_ev_def)
      then have "size (pending (cq_resume t c)) + 1 = size (pending c)"
        by (metis size_single size_union)
      moreover have "cq_items (cq_resume t c) = [e]" by (simp add: c')
      ultimately have "2 * size (pending (cq_resume t c)) + length (cq_items (cq_resume t c))
                       < 2 * size (pending c) + length (cq_items c)" using Nil by simp
      moreover have "cq_wf (cq_resume t c)" by (rule cq_wf_resume [OF less.prems])
      ultimately obtain ss where "list_all host_only ss \<and> cq_items (cq_run reg en (cq_resume t c) ss) = []
                                  \<and> pending (cq_run reg en (cq_resume t c) ss) = {#}"
        using less.hyps by blast
      then show ?thesis by (intro exI [of _ "SResume t # ss"]) (simp add: host_only_def)
    next
      case False
      then have "cq_putters c = []" using less.prems Nil by (auto simp: cq_wf_def)
      have nb: "\<forall>t e. cq_tasks c t \<noteq> Some (e, Blocked)"
        using less.prems \<open>cq_putters c = []\<close> by (auto simp: cq_wf_def)
      have "cq_tasks c u = None" for u
      proof (cases "cq_tasks c u")
        case (Some x)
        obtain ev st where x: "x = (ev, st)" by (cases x)
        show ?thesis using Some x nb False by (cases st) auto
      qed
      then have "pending c = {#}" by (simp add: pending_def task_ev_def)
      then show ?thesis using Nil by (intro exI [of _ "[]"]) simp
    qed
  qed
qed

text \<open>C30: with a bounded queue no callback waits for ever: from every state that any
  schedule of deliveries, host reads and resumptions reaches, if the host keeps reading and
  the event loop resumes the woken tasks (no new deliveries), the queue and all waiting
  callbacks empty out and the host has read every decoded event, each exactly once.\<close>

theorem bounded_sink_drains:
  "\<exists>ss. list_all host_only ss
     \<and> cq_items (cq_run reg en (cq_run reg en (cq_new m) ss0) ss) = []
     \<and> pending (cq_run reg en (cq_run reg en (cq_new m) ss0) ss) = {#}
     \<and> mset (cq_seen (cq_run reg en (cq_run reg en (cq_new m) ss0) ss))
         = mset (decoded_events reg en (sched_msgs ss0))"
proof -
  let ?c0 = "cq_run reg en (cq_new m) ss0"
  have wf: "cq_wf ?c0" using cq_wf_run [OF cq_wf_new] .
  then obtain ss where ss: "list_all host_only ss" "cq_items (cq_run reg en ?c0 ss) = []"
    "pending (cq_run reg en ?c0 ss) = {#}"
    using cq_drain by blast
  have h0: "held ?c0 = mset (decoded_events reg en (sched_msgs ss0))"
    using held_run [of "cq_new m" reg en ss0] by (simp add: cq_new_def held_def pending_def)
  have "held (cq_run reg en ?c0 ss) = held ?c0 + mset (decoded_events reg en (sched_msgs ss))"
    using wf by (intro held_run) (simp add: cq_wf_def)
  then have "held (cq_run reg en ?c0 ss) = mset (decoded_events reg en (sched_msgs ss0))"
    using h0 sched_msgs_host_only [OF ss(1)] by (simp add: decoded_events_def)
  then show ?thesis using ss by (intro exI [of _ ss]) (simp add: held_def)
qed

end
